theory Spec2Isabelle
  imports Main
begin

section \<open>Data model\<close>

text \<open>
  The records follow \<^verbatim>\<open>src/models/skill.ts\<close>, \<^verbatim>\<open>src/models/parameter.ts\<close> and
  \<^verbatim>\<open>src/models/repository.ts\<close>. Strings are \<^typ>\<open>string\<close>; an optional field is an
  \<^typ>\<open>'a option\<close> (\<open>None\<close> is JavaScript's \<^verbatim>\<open>undefined\<close>). A \<^verbatim>\<open>Date\<close> is the
  integer number of milliseconds since the epoch that it holds.
\<close>

type_synonym date = int

text \<open>
  The run-time values of a parameter (\<^verbatim>\<open>unknown\<close> in the TypeScript source). The
  program looks at a number in two ways only: the validator at its being a number (and
  at its being \<^verbatim>\<open>NaN\<close>), the executor at the text \<^verbatim>\<open>String\<close> prints for it. So a
  number other than \<^verbatim>\<open>NaN\<close> is kept as that text: \<^verbatim>\<open>1\<close>, \<^verbatim>\<open>-0.5\<close>, \<^verbatim>\<open>1e+21\<close>,
  \<^verbatim>\<open>Infinity\<close>.
\<close>

datatype jsvalue =
    JUndefined
  | JNull
  | JBool bool
  | JNumber string
  | JNaN
  | JString string
  | JArray "jsvalue list"
  | JObject "(string \<times> jsvalue) list"
  | JFunction

datatype param_type = TString | TNumber | TBoolean | TObject | TArray | TOther string

record parameter_schema =
  p_name :: string
  p_type :: param_type
  p_description :: string
  p_required :: bool
  p_default :: "jsvalue option"
  p_enum :: "jsvalue list option"

record skill_metadata =
  author :: "string option"
  version :: "string option"
  tags :: "string list option"
  requirements :: "string list option"
  sourceOrg :: "string option"
  sourceRepo :: "string option"

datatype skill_source = Repository | Local

record skill =
  s_id :: string
  s_name :: string
  s_description :: string
  s_source :: skill_source
  s_sourcePath :: string
  s_content :: string
  s_parameters :: "parameter_schema list option"
  s_metadata :: skill_metadata
  s_lastUpdated :: date

datatype source_type = Git | LocalDir

record repository_source =
  src_type :: source_type
  src_url :: "string option"
  src_branch :: string
  src_path :: "string option"
  priority :: int

section \<open>The skill registry (\<^verbatim>\<open>src/models/registry.ts\<close>)\<close>

text \<open>
  \<^verbatim>\<open>skills\<close> is a JavaScript \<^verbatim>\<open>Map\<close>: it is kept as the list of its entries in
  insertion order, which is the order \<^verbatim>\<open>Map.prototype.values()\<close> enumerates.
  \<^verbatim>\<open>Map.prototype.set\<close> overwrites the value of a key that is present, keeping its
  position, and appends a key that is new.
\<close>

fun map_set :: "'k \<Rightarrow> 'v \<Rightarrow> ('k \<times> 'v) list \<Rightarrow> ('k \<times> 'v) list" where
  "map_set k v [] = [(k, v)]"
| "map_set k v ((k', v') # m) =
     (if k' = k then (k, v) # m else (k', v') # map_set k v m)"

definition map_get :: "('k \<times> 'v) list \<Rightarrow> 'k \<Rightarrow> 'v option" where
  "map_get m k = map_of m k"

record registry =
  skills :: "(string \<times> skill) list"
  sources :: "repository_source list"
  cachePath :: string
  lastSync :: "date option"

definition new_registry :: "string \<Rightarrow> registry" where
  "new_registry cp = \<lparr>skills = [], sources = [], cachePath = cp, lastSync = None\<rparr>"

text \<open>
  \<^verbatim>\<open>addSource\<close> pushes the descriptor and sorts the whole array with the comparator
  \<^verbatim>\<open>(a, b) => b.priority - a.priority\<close>. \<^verbatim>\<open>Array.prototype.sort\<close> is stable, and so is
  the insertion sort \<^const>\<open>sort_key\<close>; descending priority is ascending negated
  priority.
\<close>

definition addSource :: "registry \<Rightarrow> repository_source \<Rightarrow> registry" where
  "addSource r src = r\<lparr>sources := sort_key (\<lambda>s. - priority s) (sources r @ [src])\<rparr>"

definition getSources :: "registry \<Rightarrow> repository_source list" where
  "getSources r = sources r"

definition getSkill :: "registry \<Rightarrow> string \<Rightarrow> skill option" where
  "getSkill r i = map_get (skills r) i"

text \<open>
  The predicate both \<^verbatim>\<open>find\<close> calls of \<^verbatim>\<open>registerSkill\<close> use: a skill whose source is
  \<^verbatim>\<open>'repository'\<close> looks for a descriptor of type \<^verbatim>\<open>'git'\<close>, any other skill for one of
  type \<^verbatim>\<open>'local'\<close>.
\<close>

definition source_matches :: "skill \<Rightarrow> repository_source \<Rightarrow> bool" where
  "source_matches sk s =
     (if s_source sk = Repository then src_type s = Git else src_type s = LocalDir)"

definition registerSkill :: "registry \<Rightarrow> skill \<Rightarrow> registry" where
  "registerSkill r sk =
     (case map_get (skills r) (s_id sk) of
        Some existing \<Rightarrow>
          (let existingSource = List.find (source_matches existing) (sources r);
               newSource = List.find (source_matches sk) (sources r);
               existingPriority = (case existingSource of None \<Rightarrow> 0 | Some s \<Rightarrow> priority s);
               newPriority = (case newSource of None \<Rightarrow> 0 | Some s \<Rightarrow> priority s)
           in if newPriority < existingPriority then r
              else r\<lparr>skills := map_set (s_id sk) sk (skills r)\<rparr>)
      | None \<Rightarrow> r\<lparr>skills := map_set (s_id sk) sk (skills r)\<rparr>)"

definition listSkills :: "registry \<Rightarrow> skill list" where
  "listSkills r = map snd (skills r)"

definition hasSkill :: "registry \<Rightarrow> string \<Rightarrow> bool" where
  "hasSkill r i = (map_get (skills r) i \<noteq> None)"

definition clear :: "registry \<Rightarrow> registry" where
  "clear r = r\<lparr>skills := []\<rparr>"

definition getSkillCount :: "registry \<Rightarrow> nat" where
  "getSkillCount r = length (skills r)"

definition setLastSync :: "registry \<Rightarrow> date \<Rightarrow> registry" where
  "setLastSync r d = r\<lparr>lastSync := Some d\<rparr>"

definition getLastSync :: "registry \<Rightarrow> date option" where
  "getLastSync r = lastSync r"

text \<open>
  The priority \<^verbatim>\<open>registerSkill\<close> resolves for a skill: the priority of the first
  registered descriptor whose type matches the skill's source kind, and 0 when there is
  none (\<^verbatim>\<open>source?.priority ?? 0\<close>).
\<close>

definition resolvedPriority :: "registry \<Rightarrow> skill \<Rightarrow> int" where
  "resolvedPriority r sk =
     (case List.find (source_matches sk) (sources r) of None \<Rightarrow> 0 | Some s \<Rightarrow> priority s)"

subsection \<open>Snapshots\<close>

text \<open>
  The text \<^verbatim>\<open>Date.prototype.toISOString\<close> produces is represented by the instant it
  denotes: the text has millisecond precision, as the \<^verbatim>\<open>Date\<close> has, and the \<^verbatim>\<open>Date\<close>
  constructor reads it back. It is never the empty string, so it is truthy.
\<close>

datatype iso_string = ISO date

definition toISOString :: "date \<Rightarrow> iso_string" where
  "toISOString d = ISO d"

fun newDate :: "iso_string \<Rightarrow> date" where
  "newDate (ISO d) = d"

text \<open>
  The object \<^verbatim>\<open>fromJSON\<close> reads: \<^verbatim>\<open>skills\<close>, \<^verbatim>\<open>sources\<close> and \<^verbatim>\<open>lastSync\<close> may be
  absent.
\<close>

record snapshot =
  snap_skills :: "skill list option"
  snap_sources :: "repository_source list option"
  snap_cachePath :: string
  snap_lastSync :: "iso_string option"

definition toJSON :: "registry \<Rightarrow> snapshot" where
  "toJSON r =
     \<lparr>snap_skills = Some (map snd (skills r)),
      snap_sources = Some (sources r),
      snap_cachePath = cachePath r,
      snap_lastSync = map_option toISOString (lastSync r)\<rparr>"

definition fromJSON :: "snapshot \<Rightarrow> registry" where
  "fromJSON data =
     (let registry0 = new_registry (snap_cachePath data);
          registry1 = (case snap_skills data of
                         Some sks \<Rightarrow> foldl registerSkill registry0 sks
                       | None \<Rightarrow> registry0);
          registry2 = (case snap_sources data of
                         Some srcs \<Rightarrow> foldl addSource registry1 srcs
                       | None \<Rightarrow> registry1)
      in (case snap_lastSync data of
            Some t \<Rightarrow> setLastSync registry2 (newDate t)
          | None \<Rightarrow> registry2))"

text \<open>
  The states a registry can be in: every entry of the map is keyed by the id of its
  skill, no key occurs twice, and the descriptors are in descending order of priority.
\<close>

definition wf_registry :: "registry \<Rightarrow> bool" where
  "wf_registry r =
     (distinct (map fst (skills r)) \<and>
      list_all (\<lambda>(k, sk). k = s_id sk) (skills r) \<and>
      sorted (map (\<lambda>s. - priority s) (sources r)))"

subsection \<open>Concrete registries used below\<close>

definition ex_git :: repository_source where
  "ex_git = \<lparr>src_type = Git, src_url = Some ''https://github.com/test/repo.git'',
             src_branch = ''main'', src_path = None, priority = 1\<rparr>"

definition ex_local :: repository_source where
  "ex_local = \<lparr>src_type = LocalDir, src_url = None, src_branch = ''main'',
               src_path = Some ''/local/skills'', priority = 2\<rparr>"

definition ex_meta :: skill_metadata where
  "ex_meta = \<lparr>author = None, version = None, tags = None, requirements = None,
              sourceOrg = None, sourceRepo = None\<rparr>"

definition ex_skill :: "string \<Rightarrow> string \<Rightarrow> skill_source \<Rightarrow> skill" where
  "ex_skill i n src =
     \<lparr>s_id = i, s_name = n, s_description = ''A test skill'', s_source = src,
      s_sourcePath = ''/path/to/skill'', s_content = ''Test content'',
      s_parameters = Some [], s_metadata = ex_meta, s_lastUpdated = 0\<rparr>"

definition ex_registry :: registry where
  "ex_registry = addSource (addSource (new_registry ''/tmp/cache'') ex_git) ex_local"

text \<open>
  The registries a program can hold: built by the constructor or by \<^verbatim>\<open>fromJSON\<close> and
  changed by the methods of the class.
\<close>

inductive reachable :: "registry \<Rightarrow> bool" where
  constructed: "reachable (new_registry cp)"
| restored: "reachable (fromJSON data)"
| source_added: "reachable r \<Longrightarrow> reachable (addSource r src)"
| registered: "reachable r \<Longrightarrow> reachable (registerSkill r sk)"
| cleared: "reachable r \<Longrightarrow> reachable (clear r)"
| synced: "reachable r \<Longrightarrow> reachable (setLastSync r d)"

section \<open>Strings\<close>

text \<open>
  A JavaScript string is the list of its code units; the model covers the code units
  below 256, which are the values of \<^typ>\<open>char\<close>. The character classes are those of
  the regular expressions in the source.
\<close>

definition code :: "char \<Rightarrow> nat" where
  "code c = of_char c"

text \<open>\<^verbatim>\<open>[a-z0-9]\<close>\<close>

definition is_lower_alnum :: "char \<Rightarrow> bool" where
  "is_lower_alnum c = ((97 \<le> code c \<and> code c \<le> 122) \<or> (48 \<le> code c \<and> code c \<le> 57))"

text \<open>\<^verbatim>\<open>\w\<close>, that is \<^verbatim>\<open>[A-Za-z0-9_]\<close>\<close>

definition is_word_char :: "char \<Rightarrow> bool" where
  "is_word_char c =
     ((97 \<le> code c \<and> code c \<le> 122) \<or> (65 \<le> code c \<and> code c \<le> 90) \<or>
      (48 \<le> code c \<and> code c \<le> 57) \<or> code c = 95)"

text \<open>
  \<^verbatim>\<open>\s\<close>, and what \<^verbatim>\<open>trim\<close> strips: tab, line feed, vertical tab, form feed,
  carriage return, space and no-break space (the white space and line terminators
  below 256).
\<close>

definition is_space :: "char \<Rightarrow> bool" where
  "is_space c = ((9 \<le> code c \<and> code c \<le> 13) \<or> code c = 32 \<or> code c = 160)"

text \<open>
  \<^verbatim>\<open>String.prototype.toLowerCase\<close> on a code unit below 256: the letters A to Z and the
  Latin-1 capitals U+00C0 to U+00DE (without the multiplication sign U+00D7) move up by
  32; every other code unit is its own lower case.
\<close>

definition lower_char :: "char \<Rightarrow> char" where
  "lower_char c =
     (if (65 \<le> code c \<and> code c \<le> 90) \<or> (192 \<le> code c \<and> code c \<le> 222 \<and> code c \<noteq> 215)
      then char_of (code c + 32) else c)"

definition toLowerCase :: "string \<Rightarrow> string" where
  "toLowerCase s = map lower_char s"

text \<open>\<^verbatim>\<open>String.prototype.trim\<close>\<close>

definition trim :: "string \<Rightarrow> string" where
  "trim s = rev (dropWhile is_space (rev (dropWhile is_space s)))"

text \<open>\<^verbatim>\<open>String.prototype.includes\<close>: the argument occurs as a substring.\<close>

fun js_includes :: "string \<Rightarrow> string \<Rightarrow> bool" where
  "js_includes [] sub = (sub = [])"
| "js_includes (c # cs) sub = (take (length sub) (c # cs) = sub \<or> js_includes cs sub)"

text \<open>
  \<^verbatim>\<open>String.prototype.split\<close> with a one-character separator: the pieces between the
  occurrences of the separator; a string without the separator is its only piece.
\<close>

fun split :: "char \<Rightarrow> string \<Rightarrow> string list" where
  "split sep [] = [[]]"
| "split sep (c # cs) =
     (if c = sep then [] # split sep cs
      else (case split sep cs of p # ps \<Rightarrow> (c # p) # ps | [] \<Rightarrow> [[c]]))"

text \<open>\<^verbatim>\<open>Array.prototype.join\<close> on strings: the pieces with the separator between them.\<close>

fun join :: "string \<Rightarrow> string list \<Rightarrow> string" where
  "join sep [] = []"
| "join sep [x] = x"
| "join sep (x # y # ys) = x @ sep @ join sep (y # ys)"

subsection \<open>Skill identifiers (\<^verbatim>\<open>SkillParser.normalizeSkillId\<close>)\<close>

text \<open>
  \<^verbatim>\<open>.replace(/[^a-z0-9]+/g, '-')\<close>: scanning from the left, every maximal run of
  characters outside \<^verbatim>\<open>[a-z0-9]\<close> becomes one hyphen.
\<close>

function replace_non_alnum_runs :: "string \<Rightarrow> string" where
  "replace_non_alnum_runs [] = []"
| "replace_non_alnum_runs (c # cs) =
     (if is_lower_alnum c then c # replace_non_alnum_runs cs
      else CHR ''-'' # replace_non_alnum_runs (dropWhile (\<lambda>x. \<not> is_lower_alnum x) cs))"
  by pat_completeness auto
termination
  by (relation "measure length") (auto simp: length_dropWhile_le less_Suc_eq_le)

text \<open>
  \<^verbatim>\<open>.replace(/^-+|-+$/g, '')\<close>: the run of hyphens at the start of the string and the
  run of hyphens at its end are removed (there is no \<^verbatim>\<open>m\<close> flag, so \<^verbatim>\<open>^\<close> and \<^verbatim>\<open>$\<close>
  are the ends of the whole string).
\<close>

definition strip_hyphens :: "string \<Rightarrow> string" where
  "strip_hyphens s =
     rev (dropWhile (\<lambda>c. c = CHR ''-'') (rev (dropWhile (\<lambda>c. c = CHR ''-'') s)))"

definition normalizeSkillId :: "string \<Rightarrow> string" where
  "normalizeSkillId i = strip_hyphens (replace_non_alnum_runs (toLowerCase i))"

text \<open>The characters a normalized identifier is made of.\<close>

definition id_char :: "char \<Rightarrow> bool" where
  "id_char c = (is_lower_alnum c \<or> c = CHR ''-'')"

text \<open>Two neighbouring characters that are both outside \<^verbatim>\<open>[a-z0-9]\<close>.\<close>

fun adjacent_separators :: "string \<Rightarrow> bool" where
  "adjacent_separators (a # b # cs) =
     ((\<not> is_lower_alnum a \<and> \<not> is_lower_alnum b) \<or> adjacent_separators (b # cs))"
| "adjacent_separators _ = False"

text \<open>An upper-case character: one that \<^verbatim>\<open>toLowerCase\<close> changes.\<close>

definition is_upper :: "char \<Rightarrow> bool" where
  "is_upper c = (lower_char c \<noteq> c)"

text \<open>
  Normalization in the words of the spec: lower case, every run of non-alphanumeric
  characters collapsed to a single separator, leading and trailing separators
  stripped. \<open>alnum_runs\<close> lists the maximal runs of characters of \<^verbatim>\<open>[a-z0-9]\<close> in a
  string, from left to right: it passes over the characters outside \<^verbatim>\<open>[a-z0-9]\<close>,
  takes the run that starts there, and goes on behind it. The normalized identifier
  is the runs of the lower-cased input with one hyphen between neighbours.
\<close>

function alnum_runs :: "string \<Rightarrow> string list" where
  "alnum_runs s =
     (case dropWhile (\<lambda>c. \<not> is_lower_alnum c) s of
        [] \<Rightarrow> []
      | c # cs \<Rightarrow>
          takeWhile is_lower_alnum (c # cs) # alnum_runs (dropWhile is_lower_alnum (c # cs)))"
  by pat_completeness auto
termination
proof (relation "measure length")
  show "wf (measure length)"
    by simp
next
  fix s :: string and c cs
  assume d: "dropWhile (\<lambda>c. \<not> is_lower_alnum c) s = c # cs"
  have "is_lower_alnum c"
    using hd_dropWhile[of "\<lambda>c. \<not> is_lower_alnum c" s] d by simp
  then have "length (dropWhile is_lower_alnum (c # cs)) \<le> length cs"
    by (simp add: length_dropWhile_le)
  moreover have "length (c # cs) \<le> length s"
    using length_dropWhile_le[of "\<lambda>c. \<not> is_lower_alnum c" s] d by simp
  ultimately show "(dropWhile is_lower_alnum (c # cs), s) \<in> measure length"
    by simp
qed

declare alnum_runs.simps [simp del]

definition normalizeSkillId_spec :: "string \<Rightarrow> string" where
  "normalizeSkillId_spec i = join ''-'' (alnum_runs (toLowerCase i))"

text \<open>A string without the hyphens at its end.\<close>

definition strip_tail :: "string \<Rightarrow> string" where
  "strip_tail t = rev (dropWhile (\<lambda>c. c = CHR ''-'') (rev t))"

section \<open>The content parser (\<^verbatim>\<open>src/services/skill-parser.ts\<close>)\<close>

subsection \<open>Parameter bullet lines (\<^verbatim>\<open>SkillParser.extractParameters\<close>)\<close>

text \<open>
  \<^verbatim>\<open>extractParameters\<close> scans the parameters section with the regular expression
  \<^verbatim>\<open>/^[-*]\s+(\w+)(?:\s*\(([^)]+)\))?\s*:\s*(.+)$/gm\<close> and builds one schema from the
  capture groups of every match. A match is kept as its three groups: the name, the
  text inside the parentheses (\<open>None\<close> when the line has no parenthetical: the group is
  \<^verbatim>\<open>undefined\<close>), and the description. The scan itself is not modelled; the loop body
  is.
\<close>

record bullet_match =
  m_name :: string
  m_typeHintRaw :: "string option"
  m_description :: string

text \<open>
  \<^verbatim>\<open>if (typeHintRaw)\<close>: the hint when the group took part in the match and is not the
  empty string, \<open>None\<close> when the test is false.
\<close>

definition truthy_hint :: "string option \<Rightarrow> string option" where
  "truthy_hint h = (case h of None \<Rightarrow> None | Some raw \<Rightarrow> if raw = [] then None else Some raw)"

text \<open>\<^verbatim>\<open>typeHintRaw.split(',').map((s) => s.trim().toLowerCase())\<close>\<close>

definition typeHintParts :: "string \<Rightarrow> string list" where
  "typeHintParts raw = map (\<lambda>s. toLowerCase (trim s)) (split CHR '','' raw)"

definition declared_type :: "string \<Rightarrow> param_type option" where
  "declared_type t =
     (if t = ''string'' then Some TString
      else if t = ''number'' then Some TNumber
      else if t = ''boolean'' then Some TBoolean
      else if t = ''object'' then Some TObject
      else if t = ''array'' then Some TArray
      else None)"

text \<open>
  The variable \<^verbatim>\<open>type\<close> after the first \<^verbatim>\<open>if\<close>: read from the first part of the hint
  when there is a hint (\<^verbatim>\<open>'string'\<close> when that part is no type name), inferred from
  the description otherwise.
\<close>

definition param_type_of :: "string option \<Rightarrow> string \<Rightarrow> param_type" where
  "param_type_of typeHintRaw description =
     (case truthy_hint typeHintRaw of
        Some raw \<Rightarrow>
          (case typeHintParts raw of
             typeStr # _ \<Rightarrow> (case declared_type typeStr of Some t \<Rightarrow> t | None \<Rightarrow> TString)
           | [] \<Rightarrow> TString)
      | None \<Rightarrow>
          (if js_includes (toLowerCase description) ''true/false''
              \<or> js_includes (toLowerCase description) ''boolean'' then TBoolean
           else if js_includes (toLowerCase description) ''array''
              \<or> js_includes (toLowerCase description) ''list'' then TArray
           else if js_includes (toLowerCase description) ''object''
              \<or> js_includes (toLowerCase description) ''map'' then TObject
           else TString))"

text \<open>
  The variable \<^verbatim>\<open>explicitRequired\<close>: set by the second part of the hint when that part
  is \<^verbatim>\<open>required\<close> or \<^verbatim>\<open>optional\<close>, \<^verbatim>\<open>undefined\<close> (\<open>None\<close>) otherwise.
\<close>

definition explicitRequired :: "string option \<Rightarrow> bool option" where
  "explicitRequired typeHintRaw =
     (case truthy_hint typeHintRaw of
        Some raw \<Rightarrow>
          (case typeHintParts raw of
             _ # second # _ \<Rightarrow>
               (if second = ''required'' then Some True
                else if second = ''optional'' then Some False
                else None)
           | _ \<Rightarrow> None)
      | None \<Rightarrow> None)"

definition isRequired :: "string option \<Rightarrow> string \<Rightarrow> bool" where
  "isRequired typeHintRaw description =
     (case explicitRequired typeHintRaw of
        Some b \<Rightarrow> b
      | None \<Rightarrow>
          (let descLower = toLowerCase description in
           case truthy_hint typeHintRaw of
             Some raw \<Rightarrow>
               js_includes descLower ''(required)'' \<or> js_includes descLower ''is required''
           | None \<Rightarrow>
               (if js_includes descLower ''optional'' \<or> js_includes descLower ''default''
                then False
                else if js_includes descLower ''required'' then True
                else False)))"

definition parameter_of_match :: "bullet_match \<Rightarrow> parameter_schema" where
  "parameter_of_match m =
     \<lparr>p_name = m_name m,
      p_type = param_type_of (m_typeHintRaw m) (m_description m),
      p_description = trim (m_description m),
      p_required = isRequired (m_typeHintRaw m) (m_description m),
      p_default = None,
      p_enum = None\<rparr>"

text \<open>The \<^verbatim>\<open>while\<close> loop over the matches, in the order of the scan.\<close>

definition extractParameters :: "bullet_match list \<Rightarrow> parameter_schema list" where
  "extractParameters ms = map parameter_of_match ms"

text \<open>
  What claim C9 says the inference is: required when the description contains
  \<^verbatim>\<open>required\<close>, optional otherwise (when it contains \<^verbatim>\<open>optional\<close> or \<^verbatim>\<open>default\<close>, or
  none of the three words).
\<close>

definition claimed_required :: "string \<Rightarrow> bool" where
  "claimed_required description = js_includes (toLowerCase description) ''required''"

subsection \<open>Index-shape sources (\<^verbatim>\<open>SkillParser.parseSkillsFromReadme\<close>)\<close>

record skill_link =
  l_name :: string
  l_org :: string
  l_repo :: string
  l_path :: string
  l_description :: string
  l_url :: string

record parsed_skill =
  ps_name :: string
  ps_description :: string
  ps_content :: string
  ps_metadata :: skill_metadata
  ps_parameters :: "parameter_schema list"

text \<open>
  An entry of the override table is a \<^verbatim>\<open>Partial<ParsedSkill>\<close>: the fields it has are
  copied over the parsed ones by \<^verbatim>\<open>Object.assign\<close>.
\<close>

record skill_override =
  o_name :: "string option"
  o_description :: "string option"
  o_content :: "string option"
  o_metadata :: "skill_metadata option"
  o_parameters :: "parameter_schema list option"

definition assign_override :: "parsed_skill \<Rightarrow> skill_override \<Rightarrow> parsed_skill" where
  "assign_override p ov =
     \<lparr>ps_name = (case o_name ov of Some x \<Rightarrow> x | None \<Rightarrow> ps_name p),
      ps_description = (case o_description ov of Some x \<Rightarrow> x | None \<Rightarrow> ps_description p),
      ps_content = (case o_content ov of Some x \<Rightarrow> x | None \<Rightarrow> ps_content p),
      ps_metadata = (case o_metadata ov of Some x \<Rightarrow> x | None \<Rightarrow> ps_metadata p),
      ps_parameters = (case o_parameters ov of Some x \<Rightarrow> x | None \<Rightarrow> ps_parameters p)\<rparr>"

text \<open>
  What one \<^verbatim>\<open>fetch\<close> of a raw URL can do: reject (a network failure), or resolve to a
  response with its \<^verbatim>\<open>ok\<close> flag, whose \<^verbatim>\<open>text()\<close> resolves to the body or rejects
  (\<open>None\<close>).
\<close>

datatype fetch_result = FetchRejects | Response bool "string option"

text \<open>\<^verbatim>\<open>a || b\<close> on strings: the empty string is falsy.\<close>

definition or_else :: "string \<Rightarrow> string \<Rightarrow> string" where
  "or_else a b = (if a = [] then b else a)"

text \<open>\<^verbatim>\<open>s.split('/').pop()\<close>: the last piece; \<^verbatim>\<open>split\<close> never returns an empty array.\<close>

definition last_segment :: "string \<Rightarrow> string" where
  "last_segment s = (case rev (split CHR ''/'' s) of p # _ \<Rightarrow> p | [] \<Rightarrow> [])"

definition link_skill_id :: "skill_link \<Rightarrow> string" where
  "link_skill_id link = normalizeSkillId (or_else (last_segment (l_path link)) (l_name link))"

definition possibleFiles :: "string list" where
  "possibleFiles = [''SKILL.md'', ''README.md'', ''skill.md'']"

definition rawUrl :: "skill_link \<Rightarrow> string \<Rightarrow> string" where
  "rawUrl link file =
     ''https://raw.githubusercontent.com/'' @ l_org link @ ''/'' @ l_repo link @ ''/main/''
       @ l_path link @ ''/'' @ file"

definition fetched_skill ::
  "(string \<Rightarrow> skill_override option) \<Rightarrow> date \<Rightarrow> skill_link \<Rightarrow> skill_source \<Rightarrow>
   parsed_skill \<Rightarrow> skill" where
  "fetched_skill overrides now link source parsed0 =
     (let skillId = link_skill_id link;
          parsed = (case overrides skillId of
                      Some ov \<Rightarrow> assign_override parsed0 ov
                    | None \<Rightarrow> parsed0)
      in \<lparr>s_id = skillId,
          s_name = or_else (ps_name parsed) (or_else (last_segment (l_name link)) skillId),
          s_description = or_else (ps_description parsed) (l_description link),
          s_source = source,
          s_sourcePath = l_url link,
          s_content = ps_content parsed,
          s_parameters = Some (ps_parameters parsed),
          s_metadata = (ps_metadata parsed)\<lparr>sourceOrg := Some (l_org link),
                                             sourceRepo := Some (l_repo link)\<rparr>,
          s_lastUpdated = now\<rparr>)"

text \<open>
  The loop of \<^verbatim>\<open>fetchSkillFromGitHub\<close> over the candidate file names. The whole body
  of the loop is inside \<^verbatim>\<open>try\<close>, and its \<^verbatim>\<open>catch\<close> continues with the next file: a
  rejected \<^verbatim>\<open>fetch\<close>, a response that is not \<^verbatim>\<open>ok\<close> and a rejected \<^verbatim>\<open>text()\<close> all go
  on to the next candidate. After the last candidate the function returns \<^verbatim>\<open>null\<close>
  (\<open>Inr None\<close>). The result type has a place for an exception (\<open>Inl\<close>), which the
  caller catches. \<open>parseMarkdown\<close> (a parameter here), the override table, the network
  and the clock are arguments.
\<close>

fun fetch_candidates ::
  "(string \<Rightarrow> parsed_skill) \<Rightarrow> (string \<Rightarrow> skill_override option) \<Rightarrow>
   (string \<Rightarrow> fetch_result) \<Rightarrow> date \<Rightarrow> skill_link \<Rightarrow> skill_source \<Rightarrow>
   string list \<Rightarrow> string + skill option" where
  "fetch_candidates parseMarkdown overrides net now link source [] = Inr None"
| "fetch_candidates parseMarkdown overrides net now link source (file # files) =
     (case net (rawUrl link file) of
        FetchRejects \<Rightarrow> fetch_candidates parseMarkdown overrides net now link source files
      | Response ok body \<Rightarrow>
          (if ok then
             (case body of
                None \<Rightarrow> fetch_candidates parseMarkdown overrides net now link source files
              | Some content \<Rightarrow>
                  Inr (Some (fetched_skill overrides now link source (parseMarkdown content))))
           else fetch_candidates parseMarkdown overrides net now link source files))"

definition fetchSkillFromGitHub ::
  "(string \<Rightarrow> parsed_skill) \<Rightarrow> (string \<Rightarrow> skill_override option) \<Rightarrow>
   (string \<Rightarrow> fetch_result) \<Rightarrow> date \<Rightarrow> skill_link \<Rightarrow> skill_source \<Rightarrow>
   string + skill option" where
  "fetchSkillFromGitHub parseMarkdown overrides net now link source =
     fetch_candidates parseMarkdown overrides net now link source possibleFiles"

definition newline :: char where
  "newline = CHR 0x0A"

definition createSkillStub :: "date \<Rightarrow> skill_link \<Rightarrow> skill_source \<Rightarrow> skill" where
  "createSkillStub now link source =
     (let skillId = link_skill_id link
      in \<lparr>s_id = skillId,
          s_name = or_else (last_segment (l_name link)) skillId,
          s_description = l_description link,
          s_source = source,
          s_sourcePath = l_url link,
          s_content = ''# '' @ l_name link @ [newline, newline] @ l_description link
             @ [newline, newline] @ ''## Source'' @ [newline, newline]
             @ ''This skill is available at: '' @ l_url link @ [newline, newline]
             @ ''Please visit the source repository for full documentation and usage instructions.'',
          s_parameters = Some [],
          s_metadata = \<lparr>author = None, version = None, tags = None, requirements = None,
                         sourceOrg = Some (l_org link), sourceRepo = Some (l_repo link)\<rparr>,
          s_lastUpdated = now\<rparr>)"

text \<open>
  The second loop of \<^verbatim>\<open>parseSkillsFromReadme\<close>, over the links the scan of the README
  found (the scan with \<^verbatim>\<open>skillLinkRegex\<close> is not modelled: \<open>skillLinks\<close> is its
  result). A skill that was fetched is pushed; \<^verbatim>\<open>null\<close> is skipped by
  \<^verbatim>\<open>if (skill)\<close>; the stub is pushed in the \<^verbatim>\<open>catch\<close> branch.
\<close>

fun parseSkillsFromReadme ::
  "(string \<Rightarrow> parsed_skill) \<Rightarrow> (string \<Rightarrow> skill_override option) \<Rightarrow>
   (string \<Rightarrow> fetch_result) \<Rightarrow> date \<Rightarrow> skill_source \<Rightarrow> skill_link list \<Rightarrow>
   skill list" where
  "parseSkillsFromReadme parseMarkdown overrides net now source [] = []"
| "parseSkillsFromReadme parseMarkdown overrides net now source (link # skillLinks) =
     (case fetchSkillFromGitHub parseMarkdown overrides net now link source of
        Inr (Some skill) \<Rightarrow>
          skill # parseSkillsFromReadme parseMarkdown overrides net now source skillLinks
      | Inr None \<Rightarrow> parseSkillsFromReadme parseMarkdown overrides net now source skillLinks
      | Inl error \<Rightarrow>
          createSkillStub now link source
            # parseSkillsFromReadme parseMarkdown overrides net now source skillLinks)"

text \<open>A fetch fails: it yields no document.\<close>

definition fetch_fails :: "fetch_result \<Rightarrow> bool" where
  "fetch_fails r = (case r of FetchRejects \<Rightarrow> True | Response ok body \<Rightarrow> \<not> ok \<or> body = None)"

definition ex_link :: skill_link where
  "ex_link =
     \<lparr>l_name = ''anthropics/pdf'', l_org = ''anthropics'', l_repo = ''skills'',
      l_path = ''skills/pdf'', l_description = ''Work with PDF files'',
      l_url = ''https://github.com/anthropics/skills/tree/main/skills/pdf''\<rparr>"

section \<open>The source sync controller (\<^verbatim>\<open>src/services/git-sync.ts\<close>)\<close>

text \<open>
  The working copy and what \<^verbatim>\<open>git\<close> does to it. A revision is a commit id. The state
  holds whether \<^verbatim>\<open>.git\<close> exists (\<open>cloned\<close>), the local \<^verbatim>\<open>HEAD\<close>, the remote-tracking
  ref \<^verbatim>\<open>origin/<branch>\<close>, the tracked paths with local modifications
  (\<open>local_changes\<close>), the files in the directory that \<^verbatim>\<open>git\<close> does not track
  (\<open>untracked_files\<close>; before the clone, all files in the directory), the head of the
  branch in the remote repository (\<open>upstream\<close>), and the list of the \<^verbatim>\<open>git\<close> commands
  that have run, oldest first.
\<close>

type_synonym rev = string

datatype git_op = Clone | Fetch | RevParse | ResetHard

record working_copy =
  cloned :: bool
  local_head :: rev
  tracking_head :: rev
  local_changes :: "string list"
  untracked_files :: "string list"
  upstream :: rev
  ops :: "git_op list"

text \<open>
  Any \<^verbatim>\<open>git\<close> command may fail (the promise rejects, for instance on a timeout): the
  environment says which do in the call at hand, and with what message.
\<close>

record git_env =
  clone_fails :: bool
  fetch_fails_now :: bool
  revparse_fails :: bool
  reset_fails :: bool
  error_message :: string

record git_sync_result =
  success :: bool
  updated :: bool
  message :: string
  skillsChanged :: "bool option"

text \<open>
  \<^verbatim>\<open>git clone --depth 1 --branch <branch>\<close> into the directory: \<^verbatim>\<open>git\<close> refuses a
  directory that is not empty.
\<close>

definition git_clone :: "git_env \<Rightarrow> working_copy \<Rightarrow> string + working_copy" where
  "git_clone env w =
     (if clone_fails env \<or> untracked_files w \<noteq> [] then Inl (error_message env)
      else Inr (w\<lparr>cloned := True, local_head := upstream w, tracking_head := upstream w,
                 local_changes := [], ops := ops w @ [Clone]\<rparr>))"

text \<open>\<^verbatim>\<open>git fetch --depth 1 origin <branch>\<close>: moves the remote-tracking ref.\<close>

definition git_fetch :: "git_env \<Rightarrow> working_copy \<Rightarrow> string + working_copy" where
  "git_fetch env w =
     (if fetch_fails_now env then Inl (error_message env)
      else Inr (w\<lparr>tracking_head := upstream w, ops := ops w @ [Fetch]\<rparr>))"

text \<open>\<^verbatim>\<open>git rev-parse\<close> of \<^verbatim>\<open>HEAD\<close> and of \<^verbatim>\<open>origin/<branch>\<close>\<close>

definition git_revparse_both :: "git_env \<Rightarrow> working_copy \<Rightarrow> string + (rev \<times> rev \<times> working_copy)" where
  "git_revparse_both env w =
     (if revparse_fails env then Inl (error_message env)
      else Inr (local_head w, tracking_head w, w\<lparr>ops := ops w @ [RevParse, RevParse]\<rparr>))"

text \<open>
  \<^verbatim>\<open>git reset --hard origin/<branch>\<close>: moves \<^verbatim>\<open>HEAD\<close> and discards the local
  modifications of tracked files; untracked files stay.
\<close>

definition git_reset_hard :: "git_env \<Rightarrow> working_copy \<Rightarrow> string + working_copy" where
  "git_reset_hard env w =
     (if reset_fails env then Inl (error_message env)
      else Inr (w\<lparr>local_head := tracking_head w, local_changes := [],
                 ops := ops w @ [ResetHard]\<rparr>))"

text \<open>
  \<^verbatim>\<open>initialize\<close> and \<^verbatim>\<open>sync\<close> call each other: \<^verbatim>\<open>initialize\<close> delegates to \<^verbatim>\<open>sync\<close> when
  \<^verbatim>\<open>.git\<close> exists and \<^verbatim>\<open>sync\<close> to \<^verbatim>\<open>initialize\<close> when it does not. Both are one
  function here, tagged by the entry point; each returns its result and the working
  copy it leaves. A rejected command is caught by the \<^verbatim>\<open>catch\<close> of the function it
  runs in.
\<close>

datatype entry = Initialize | Sync

function git_run :: "entry \<Rightarrow> git_env \<Rightarrow> working_copy \<Rightarrow> git_sync_result \<times> working_copy" where
  "git_run Initialize env w =
     (if cloned w then git_run Sync env w
      else
        (case git_clone env w of
           Inl err \<Rightarrow>
             (\<lparr>success = False, updated = False,
               message = ''Failed to initialize: '' @ err, skillsChanged = None\<rparr>, w)
         | Inr w1 \<Rightarrow>
             (\<lparr>success = True, updated = True,
               message = ''Repository cloned successfully'', skillsChanged = Some True\<rparr>, w1)))"
| "git_run Sync env w =
     (if \<not> cloned w then git_run Initialize env w
      else
        (case git_fetch env w of
           Inl err \<Rightarrow>
             (\<lparr>success = False, updated = False,
               message = ''Sync failed: '' @ err, skillsChanged = None\<rparr>, w)
         | Inr w1 \<Rightarrow>
             (case git_revparse_both env w1 of
                Inl err \<Rightarrow>
                  (\<lparr>success = False, updated = False,
                    message = ''Sync failed: '' @ err, skillsChanged = None\<rparr>, w1)
              | Inr (currentRev, remoteRev, w2) \<Rightarrow>
                  (if currentRev = remoteRev then
                     (\<lparr>success = True, updated = False,
                       message = ''Repository is up to date'', skillsChanged = Some False\<rparr>, w2)
                   else
                     (case git_reset_hard env w2 of
                        Inl err \<Rightarrow>
                          (\<lparr>success = False, updated = False,
                            message = ''Sync failed: '' @ err, skillsChanged = None\<rparr>, w2)
                      | Inr w3 \<Rightarrow>
                          (\<lparr>success = True, updated = True,
                            message = ''Repository updated successfully'',
                            skillsChanged = Some True\<rparr>, w3))))))"
  by pat_completeness auto
termination
  by (relation "measure (\<lambda>(e, env, w). case e of
          Initialize \<Rightarrow> (if cloned w then 1 else 0)
        | Sync \<Rightarrow> (if cloned w then 0 else 1))") auto

definition initialize :: "git_env \<Rightarrow> working_copy \<Rightarrow> git_sync_result \<times> working_copy" where
  "initialize env w = git_run Initialize env w"

definition sync :: "git_env \<Rightarrow> working_copy \<Rightarrow> git_sync_result \<times> working_copy" where
  "sync env w = git_run Sync env w"

definition ex_env :: git_env where
  "ex_env = \<lparr>clone_fails = False, fetch_fails_now = False, revparse_fails = False,
             reset_fails = False, error_message = []\<rparr>"

definition ex_copy :: working_copy where
  "ex_copy = \<lparr>cloned = True, local_head = ''a1b2c3'', tracking_head = ''a1b2c3'',
              local_changes = [''README.md''], untracked_files = [''notes.txt''],
              upstream = ''a1b2c3'', ops = []\<rparr>"

section \<open>Parameter validation\<close>

subsection \<open>JavaScript values and objects\<close>

text \<open>
  A built-in function value is \<open>JFunction\<close>; the values a caller passes are the others.
  A parameter map (\<^verbatim>\<open>Record<string, unknown>\<close>) is a plain object: the list of its own
  properties in the order \<^verbatim>\<open>Object.keys\<close> enumerates them, with \<^verbatim>\<open>Object.prototype\<close>
  as its prototype. The properties of \<^verbatim>\<open>Object.prototype\<close> are built-in functions,
  and the accessor \<^verbatim>\<open>__proto__\<close>, which read through a plain object is
  \<^verbatim>\<open>Object.prototype\<close> itself: an object without enumerable properties.
\<close>

type_synonym js_object = "(string \<times> jsvalue) list"

definition object_prototype :: js_object where
  "object_prototype =
     [(''constructor'', JFunction), (''__defineGetter__'', JFunction),
      (''__defineSetter__'', JFunction), (''hasOwnProperty'', JFunction),
      (''__lookupGetter__'', JFunction), (''__lookupSetter__'', JFunction),
      (''isPrototypeOf'', JFunction), (''propertyIsEnumerable'', JFunction),
      (''toString'', JFunction), (''valueOf'', JFunction),
      (''__proto__'', JObject []), (''toLocaleString'', JFunction)]"

text \<open>\<^verbatim>\<open>Object.keys(params)\<close>: the own properties.\<close>

definition object_keys :: "js_object \<Rightarrow> string list" where
  "object_keys params = map fst params"

text \<open>\<^verbatim>\<open>name in params\<close>: an own property or one found on the prototype.\<close>

definition js_in :: "string \<Rightarrow> js_object \<Rightarrow> bool" where
  "js_in k params = (map_of params k \<noteq> None \<or> map_of object_prototype k \<noteq> None)"

text \<open>\<^verbatim>\<open>params[name]\<close>: the own property, else the inherited one, else \<^verbatim>\<open>undefined\<close>.\<close>

definition js_get :: "js_object \<Rightarrow> string \<Rightarrow> jsvalue" where
  "js_get params k =
     (case map_of params k of
        Some v \<Rightarrow> v
      | None \<Rightarrow> (case map_of object_prototype k of Some v \<Rightarrow> v | None \<Rightarrow> JUndefined))"

subsection \<open>The parameter validator (\<^verbatim>\<open>src/models/parameter.ts\<close>)\<close>

text \<open>
  The validators are those of the zod library (version 3): \<^verbatim>\<open>z.string()\<close>,
  \<^verbatim>\<open>z.number()\<close>, \<^verbatim>\<open>z.boolean()\<close>, \<^verbatim>\<open>z.record(z.any())\<close> and \<^verbatim>\<open>z.array(z.any())\<close> accept a
  value by the type zod finds for it, and report \<^verbatim>\<open>Required\<close> for \<^verbatim>\<open>undefined\<close> and
  \<^verbatim>\<open>Expected <type>, received <type>\<close> for any other mismatch.
\<close>

datatype zod_parsed_type =
  ZString | ZNumber | ZNan | ZBoolean | ZObject | ZArray | ZNull | ZUndefined | ZFunction

fun getParsedType :: "jsvalue \<Rightarrow> zod_parsed_type" where
  "getParsedType JUndefined = ZUndefined"
| "getParsedType JNull = ZNull"
| "getParsedType (JBool b) = ZBoolean"
| "getParsedType (JNumber n) = ZNumber"
| "getParsedType JNaN = ZNan"
| "getParsedType (JString s) = ZString"
| "getParsedType (JArray xs) = ZArray"
| "getParsedType (JObject ps) = ZObject"
| "getParsedType JFunction = ZFunction"

fun parsed_type_name :: "zod_parsed_type \<Rightarrow> string" where
  "parsed_type_name ZString = ''string''"
| "parsed_type_name ZNumber = ''number''"
| "parsed_type_name ZNan = ''nan''"
| "parsed_type_name ZBoolean = ''boolean''"
| "parsed_type_name ZObject = ''object''"
| "parsed_type_name ZArray = ''array''"
| "parsed_type_name ZNull = ''null''"
| "parsed_type_name ZUndefined = ''undefined''"
| "parsed_type_name ZFunction = ''function''"

text \<open>A base validator: \<open>None\<close> when the value is accepted, the message of the issue otherwise.\<close>

definition expect_type :: "zod_parsed_type \<Rightarrow> jsvalue \<Rightarrow> string option" where
  "expect_type t v =
     (if getParsedType v = t then None
      else if getParsedType v = ZUndefined then Some ''Required''
      else Some (''Expected '' @ parsed_type_name t @ '', received ''
                   @ parsed_type_name (getParsedType v)))"

text \<open>
  \<^verbatim>\<open>String(value)\<close> for an element of \<^verbatim>\<open>param.enum\<close> and for a value that is substituted
  into a template. A number is the text it is kept as; an array is its elements joined
  by commas, with \<^verbatim>\<open>null\<close> and \<^verbatim>\<open>undefined\<close> elements empty; a plain object (one
  without a \<^verbatim>\<open>toString\<close> of its own) is \<^verbatim>\<open>[object Object]\<close>.
\<close>

fun js_String :: "jsvalue \<Rightarrow> string" where
  "js_String JUndefined = ''undefined''"
| "js_String JNull = ''null''"
| "js_String (JBool b) = (if b then ''true'' else ''false'')"
| "js_String (JNumber t) = t"
| "js_String JNaN = ''NaN''"
| "js_String (JString s) = s"
| "js_String (JArray xs) =
     join '','' (map (\<lambda>x. if x = JNull \<or> x = JUndefined then [] else js_String x) xs)"
| "js_String (JObject ps) = ''[object Object]''"
| "js_String JFunction = ''function () { [native code] }''"

text \<open>\<^verbatim>\<open>array.join(', ')\<close>\<close>

definition join_enum :: "jsvalue list \<Rightarrow> string" where
  "join_enum vs =
     join '', '' (map (\<lambda>x. if x = JNull \<or> x = JUndefined then [] else js_String x) vs)"

text \<open>
  \<^verbatim>\<open>validateParameterValue\<close>: \<open>None\<close> is \<^verbatim>\<open>{ valid: true }\<close>, \<open>Some msg\<close> is
  \<^verbatim>\<open>{ valid: false, error: msg }\<close>. The refinement of a string parameter with an
  \<^verbatim>\<open>enum\<close> runs when the value is a string, and passes when the array includes it.
\<close>

definition validateParameterValue :: "parameter_schema \<Rightarrow> jsvalue \<Rightarrow> string option" where
  "validateParameterValue param v =
     (case p_type param of
        TString \<Rightarrow>
          (case p_enum param of
             None \<Rightarrow> expect_type ZString v
           | Some enum \<Rightarrow>
               (case expect_type ZString v of
                  Some msg \<Rightarrow> Some msg
                | None \<Rightarrow>
                    if v \<in> set enum then None
                    else Some (''Value must be one of: '' @ join_enum enum)))
      | TNumber \<Rightarrow> expect_type ZNumber v
      | TBoolean \<Rightarrow> expect_type ZBoolean v
      | TObject \<Rightarrow> expect_type ZObject v
      | TArray \<Rightarrow> expect_type ZArray v
      | TOther t \<Rightarrow> Some (''Unknown parameter type: '' @ t))"

subsection \<open>\<^verbatim>\<open>SkillRegistry.validateParameters\<close>\<close>

record validation_result =
  valid :: bool
  errors :: "string list option"

definition quote :: char where
  "quote = CHR 0x27"

text \<open>One turn of the first loop: \<open>errs\<close> is the \<^verbatim>\<open>errors\<close> array so far.\<close>

definition check_parameter :: "js_object \<Rightarrow> string list \<Rightarrow> parameter_schema \<Rightarrow> string list" where
  "check_parameter params errs param =
     (if p_required param \<and> \<not> js_in (p_name param) params then
        errs @ [''Missing required parameter: '' @ p_name param]
      else if js_in (p_name param) params then
        (case validateParameterValue param (js_get params (p_name param)) of
           Some msg \<Rightarrow>
             errs @ [''Invalid parameter '' @ [quote] @ p_name param @ [quote] @ '': '' @ msg]
         | None \<Rightarrow> errs)
      else errs)"

text \<open>One turn of the second loop, over \<^verbatim>\<open>Object.keys(params)\<close>.\<close>

definition check_key :: "string list \<Rightarrow> string list \<Rightarrow> string \<Rightarrow> string list" where
  "check_key knownParams errs paramName =
     (if paramName \<notin> set knownParams then errs @ [''Unknown parameter: '' @ paramName]
      else errs)"

definition validateParameters :: "registry \<Rightarrow> string \<Rightarrow> js_object \<Rightarrow> validation_result" where
  "validateParameters r skillId params =
     (case getSkill r skillId of
        None \<Rightarrow> \<lparr>valid = False, errors = Some [''Skill not found: '' @ skillId]\<rparr>
      | Some skill \<Rightarrow>
          (let parameters = (case s_parameters skill of Some ps \<Rightarrow> ps | None \<Rightarrow> []);
               errors1 = foldl (check_parameter params) [] parameters;
               knownParams = map p_name parameters;
               errors2 = foldl (check_key knownParams) errors1 (object_keys params)
           in \<lparr>valid = (length errors2 = 0),
               errors = (if length errors2 > 0 then Some errors2 else None)\<rparr>))"

text \<open>The violations of claim C4, for one declared parameter and for one key.\<close>

definition missing_required :: "js_object \<Rightarrow> parameter_schema \<Rightarrow> bool" where
  "missing_required params param = (p_required param \<and> map_of params (p_name param) = None)"

definition present_invalid :: "js_object \<Rightarrow> parameter_schema \<Rightarrow> bool" where
  "present_invalid params param =
     (case map_of params (p_name param) of
        None \<Rightarrow> False
      | Some v \<Rightarrow> validateParameterValue param v \<noteq> None)"

definition unknown_key :: "parameter_schema list \<Rightarrow> string \<Rightarrow> bool" where
  "unknown_key parameters k = (k \<notin> set (map p_name parameters))"

definition ex_param :: "string \<Rightarrow> param_type \<Rightarrow> bool \<Rightarrow> parameter_schema" where
  "ex_param n t req =
     \<lparr>p_name = n, p_type = t, p_description = ''A parameter'', p_required = req,
      p_default = None, p_enum = None\<rparr>"

definition ex_skill_with :: "string \<Rightarrow> string \<Rightarrow> parameter_schema list \<Rightarrow> skill" where
  "ex_skill_with i c ps = (ex_skill i ''Test'' Repository)\<lparr>s_content := c, s_parameters := Some ps\<rparr>"

section \<open>The skill executor (\<^verbatim>\<open>src/services/skill-executor.ts\<close>)\<close>

subsection \<open>Placeholders and \<^verbatim>\<open>String.prototype.replace\<close>\<close>

text \<open>
  The two regular expressions \<^verbatim>\<open>substituteParameters\<close> builds from a key are
  \<^verbatim>\<open>\{\{\s*KEY\s*\}\}\<close> and \<^verbatim>\<open>\$\{\s*KEY\s*\}\<close>, both with the flag \<^verbatim>\<open>g\<close>. The key is
  pasted into the source of the expression as it is, so it is read as a regular
  expression itself. A key made of word characters only stands for itself, and these
  are the keys the model covers.
\<close>

datatype placeholder_form = DoubleBrace | DollarBrace

fun opener :: "placeholder_form \<Rightarrow> string" where
  "opener DoubleBrace = ''{{''"
| "opener DollarBrace = ''${''"

fun closer :: "placeholder_form \<Rightarrow> string" where
  "closer DoubleBrace = ''}}''"
| "closer DollarBrace = ''}''"

definition literal_key :: "string \<Rightarrow> bool" where
  "literal_key k = list_all is_word_char k"

text \<open>The rest of \<open>s\<close> after the prefix \<open>p\<close>, when \<open>s\<close> starts with \<open>p\<close>.\<close>

fun strip_prefix :: "string \<Rightarrow> string \<Rightarrow> string option" where
  "strip_prefix [] s = Some s"
| "strip_prefix (p # ps) [] = None"
| "strip_prefix (p # ps) (c # cs) = (if p = c then strip_prefix ps cs else None)"

text \<open>
  A match of the expression at the start of \<open>s\<close>: the number of characters it takes.
  \<^verbatim>\<open>\s*\<close> is greedy; what follows it (a word character of the key, or a closing brace)
  is no white space, so taking all the white space is the only way to match.
\<close>

definition match_placeholder :: "placeholder_form \<Rightarrow> string \<Rightarrow> string \<Rightarrow> nat option" where
  "match_placeholder form key s =
     (case strip_prefix (opener form) s of
        None \<Rightarrow> None
      | Some s1 \<Rightarrow>
          (case strip_prefix key (dropWhile is_space s1) of
             None \<Rightarrow> None
           | Some s2 \<Rightarrow>
               (case strip_prefix (closer form) (dropWhile is_space s2) of
                  None \<Rightarrow> None
                | Some rest \<Rightarrow> Some (length s - length rest))))"

text \<open>
  The replacement text of one match (\<^verbatim>\<open>GetSubstitution\<close> of ECMAScript, for an
  expression without capture groups): in the replacement string \<^verbatim>\<open>$$\<close> is a dollar
  sign, \<^verbatim>\<open>$&\<close> the matched text, \<^verbatim>\<open>$`\<close> the part of the subject before the match and
  \<^verbatim>\<open>$'\<close> the part after it; every other character, and a dollar sign followed by
  anything else, stands for itself.
\<close>

fun get_substitution :: "string \<Rightarrow> string \<Rightarrow> string \<Rightarrow> string \<Rightarrow> string" where
  "get_substitution matched preceding following [] = []"
| "get_substitution matched preceding following [c] = [c]"
| "get_substitution matched preceding following (c # d # r) =
     (if c = CHR ''$'' \<and> d = CHR ''$'' then CHR ''$'' # get_substitution matched preceding following r
      else if c = CHR ''$'' \<and> d = CHR ''&'' then matched @ get_substitution matched preceding following r
      else if c = CHR ''$'' \<and> d = CHR 0x60 then preceding @ get_substitution matched preceding following r
      else if c = CHR ''$'' \<and> d = CHR 0x27 then following @ get_substitution matched preceding following r
      else c # get_substitution matched preceding following (d # r))"

text \<open>
  \<^verbatim>\<open>subject.replace(regexp, replacement)\<close> with a global expression: the subject is
  scanned from the left; where the expression matches, the substitution is emitted and
  the scan goes on behind the match; elsewhere the character is copied. \<open>scanned\<close> is
  the part of the subject already scanned, \<open>skip\<close> the number of characters of the
  current match that are still to be passed over.
\<close>

fun replace_scan ::
  "placeholder_form \<Rightarrow> string \<Rightarrow> string \<Rightarrow> string \<Rightarrow> nat \<Rightarrow> string \<Rightarrow> string" where
  "replace_scan form key replacement scanned skip [] = []"
| "replace_scan form key replacement scanned (Suc skip) (c # cs) =
     replace_scan form key replacement (scanned @ [c]) skip cs"
| "replace_scan form key replacement scanned 0 (c # cs) =
     (case match_placeholder form key (c # cs) of
        Some len \<Rightarrow>
          get_substitution (take len (c # cs)) scanned (drop len (c # cs)) replacement
            @ replace_scan form key replacement (scanned @ [c]) (len - 1) cs
      | None \<Rightarrow> c # replace_scan form key replacement (scanned @ [c]) 0 cs)"

definition replace_placeholders :: "placeholder_form \<Rightarrow> string \<Rightarrow> string \<Rightarrow> string \<Rightarrow> string" where
  "replace_placeholders form key replacement subject =
     replace_scan form key replacement [] 0 subject"

subsection \<open>\<^verbatim>\<open>SkillExecutor.substituteParameters\<close> and \<^verbatim>\<open>invokeSkill\<close>\<close>

text \<open>
  The loop over \<^verbatim>\<open>Object.entries(parameters)\<close>. The result is \<open>None\<close> when a key is
  outside the keys the model covers.
\<close>

fun substituteParameters :: "string \<Rightarrow> js_object \<Rightarrow> string option" where
  "substituteParameters result [] = Some result"
| "substituteParameters result ((key, v) # entries) =
     (if literal_key key then
        substituteParameters
          (replace_placeholders DollarBrace key (js_String v)
             (replace_placeholders DoubleBrace key (js_String v) result))
          entries
      else None)"

datatype error_code = InvalidParams | SkillNotFound | ExecutionError | RepositoryError | InternalError

record invocation_error =
  err_code :: error_code
  err_message :: string
  details :: "string list option option"

record invocation_result =
  inv_success :: bool
  inv_content :: "string option"
  inv_error :: "invocation_error option"
  executionTime :: int

definition createSuccessResult :: "string \<Rightarrow> int \<Rightarrow> invocation_result" where
  "createSuccessResult c t =
     \<lparr>inv_success = True, inv_content = Some c, inv_error = None, executionTime = t\<rparr>"

definition createErrorResult ::
  "error_code \<Rightarrow> string \<Rightarrow> int \<Rightarrow> string list option option \<Rightarrow> invocation_result" where
  "createErrorResult c m t d =
     \<lparr>inv_success = False, inv_content = None,
      inv_error = Some \<lparr>err_code = c, err_message = m, details = d\<rparr>, executionTime = t\<rparr>"

text \<open>
  \<^verbatim>\<open>invokeSkill\<close>; \<open>elapsed\<close> is the time the clock shows to have passed when the
  result is built. The result is \<open>None\<close> when the substitution is outside the model.
\<close>

definition invokeSkill :: "registry \<Rightarrow> int \<Rightarrow> string \<Rightarrow> js_object \<Rightarrow> invocation_result option" where
  "invokeSkill r elapsed skillId parameters =
     (case getSkill r skillId of
        None \<Rightarrow> Some (createErrorResult SkillNotFound (''Skill not found: '' @ skillId) elapsed None)
      | Some skill \<Rightarrow>
          (let validation = validateParameters r skillId parameters in
           if \<not> valid validation then
             Some (createErrorResult InvalidParams
                     (or_else (case errors validation of Some es \<Rightarrow> join '', '' es | None \<Rightarrow> [])
                        ''Parameter validation failed'')
                     elapsed (Some (errors validation)))
           else
             map_option (\<lambda>formattedContent. createSuccessResult formattedContent elapsed)
               (substituteParameters (s_content skill) parameters)))"

subsection \<open>Templates as sequences of text and placeholders\<close>

text \<open>
  A template seen as the spec describes it: stretches of text without an opening
  brace, and placeholders of one key in one of the two forms, with white space around
  the key. \<open>template_of\<close> is the text of the template, \<open>rendered\<close> the text in which every
  placeholder has given way to the value.
\<close>

datatype segment = Text string | Hole string string

definition render_hole :: "placeholder_form \<Rightarrow> string \<Rightarrow> string \<Rightarrow> string \<Rightarrow> string" where
  "render_hole form key ws1 ws2 = opener form @ ws1 @ key @ ws2 @ closer form"

fun template_of :: "placeholder_form \<Rightarrow> string \<Rightarrow> segment list \<Rightarrow> string" where
  "template_of form key [] = []"
| "template_of form key (Text t # segs) = t @ template_of form key segs"
| "template_of form key (Hole ws1 ws2 # segs) =
     render_hole form key ws1 ws2 @ template_of form key segs"

fun rendered :: "string \<Rightarrow> segment list \<Rightarrow> string" where
  "rendered v [] = []"
| "rendered v (Text t # segs) = t @ rendered v segs"
| "rendered v (Hole ws1 ws2 # segs) = v @ rendered v segs"

fun wf_segment :: "segment \<Rightarrow> bool" where
  "wf_segment (Text t) = (CHR ''{'' \<notin> set t)"
| "wf_segment (Hole ws1 ws2) = (list_all is_space ws1 \<and> list_all is_space ws2)"

section \<open>The auto-sync loop (\<^verbatim>\<open>GitSyncService.startAutoSync\<close> and its callback in \<^verbatim>\<open>main\<close>)\<close>

text \<open>
  JavaScript runs one piece of code at a time and switches at every \<^verbatim>\<open>await\<close>. The
  loop is therefore a transition system. Every firing of the timer starts an
  invocation of the \<^verbatim>\<open>async\<close> handler that \<^verbatim>\<open>startAutoSync\<close> gives to \<^verbatim>\<open>setInterval\<close>; an
  invocation waits at one of three places:

  \<^item> \<open>OuterSync\<close>: at \<^verbatim>\<open>await this.sync()\<close> in the handler of \<^verbatim>\<open>startAutoSync\<close>;
  \<^item> \<open>InnerSync\<close>: at \<^verbatim>\<open>await gitSync.sync()\<close> in the callback of \<^verbatim>\<open>main\<close>, which the
    handler calls when the outer sync succeeded and updated, and which has set
    \<^verbatim>\<open>isSyncing\<close>;
  \<^item> \<open>Refreshing\<close>: in the callback, re-parsing and saving the skills after an inner
    sync that reported changed skills.

  A sync that is being waited for has its \<^verbatim>\<open>git\<close> commands running against the working
  copy.
\<close>

datatype phase = OuterSync | InnerSync | Refreshing

record auto_sync_state =
  running :: "phase list"
  isSyncing :: bool

datatype event =
    Tick
  | SyncDone nat git_sync_result
  | RefreshDone nat

definition remove_nth :: "nat \<Rightarrow> 'a list \<Rightarrow> 'a list" where
  "remove_nth i xs = take i xs @ drop (Suc i) xs"

definition start_state :: auto_sync_state where
  "start_state = \<lparr>running = [], isSyncing = False\<rparr>"

text \<open>
  One event; \<open>None\<close> when the event cannot happen in the state (there is no such
  invocation, or it is not waiting for that). \<open>Tick\<close>: the handler calls
  \<^verbatim>\<open>this.sync()\<close> first thing, whatever else is running. \<open>SyncDone i r\<close>: the sync
  invocation \<open>i\<close> waits for returns \<open>r\<close>. In the handler, the callback is called when
  \<^verbatim>\<open>result.success && result.updated\<close>; the callback returns at once when \<^verbatim>\<open>isSyncing\<close>
  is set, else it sets the flag and starts its own sync. In the callback, the refresh
  runs when \<^verbatim>\<open>result.success && result.skillsChanged\<close>; \<^verbatim>\<open>finally\<close> clears the flag.
\<close>

definition step :: "auto_sync_state \<Rightarrow> event \<Rightarrow> auto_sync_state option" where
  "step s e =
     (case e of
        Tick \<Rightarrow> Some (s\<lparr>running := running s @ [OuterSync]\<rparr>)
      | SyncDone i r \<Rightarrow>
          (if i < length (running s) then
             (case running s ! i of
                OuterSync \<Rightarrow>
                  (if success r \<and> updated r then
                     (if isSyncing s then Some (s\<lparr>running := remove_nth i (running s)\<rparr>)
                      else Some (s\<lparr>running := (running s)[i := InnerSync], isSyncing := True\<rparr>))
                   else Some (s\<lparr>running := remove_nth i (running s)\<rparr>))
              | InnerSync \<Rightarrow>
                  (if success r \<and> skillsChanged r = Some True then
                     Some (s\<lparr>running := (running s)[i := Refreshing]\<rparr>)
                   else Some (s\<lparr>running := remove_nth i (running s), isSyncing := False\<rparr>))
              | Refreshing \<Rightarrow> None)
           else None)
      | RefreshDone i \<Rightarrow>
          (if i < length (running s) then
             (case running s ! i of
                Refreshing \<Rightarrow> Some (s\<lparr>running := remove_nth i (running s), isSyncing := False\<rparr>)
              | _ \<Rightarrow> None)
           else None))"

fun run :: "auto_sync_state \<Rightarrow> event list \<Rightarrow> auto_sync_state option" where
  "run s [] = Some s"
| "run s (e # es) = (case step s e of None \<Rightarrow> None | Some s' \<Rightarrow> run s' es)"

text \<open>The syncs that are running against the working copy.\<close>

definition syncs_in_flight :: "auto_sync_state \<Rightarrow> nat" where
  "syncs_in_flight s = length (filter (\<lambda>p. p = OuterSync \<or> p = InnerSync) (running s))"

text \<open>The invocations that are inside the guarded part of the callback.\<close>

definition callbacks_active :: "auto_sync_state \<Rightarrow> nat" where
  "callbacks_active s = length (filter (\<lambda>p. p = InnerSync \<or> p = Refreshing) (running s))"

definition ex_updated :: git_sync_result where
  "ex_updated = \<lparr>success = True, updated = True, message = ''Repository updated successfully'',
                 skillsChanged = Some True\<rparr>"

text \<open>What the flag does guard: the flag is set exactly when one invocation is inside the callback.\<close>

definition guard_inv :: "auto_sync_state \<Rightarrow> bool" where
  "guard_inv s = (callbacks_active s = (if isSyncing s then 1 else 0))"

section \<open>Properties of the registry\<close>

subsection \<open>The map operations\<close>

lemma map_get_map_set: "map_get (map_set k v m) k' = (if k' = k then Some v else map_get m k')"
  by (induction m) (auto simp: map_get_def)

lemma map_set_keys: "fst ` set (map_set k v m) = insert k (fst ` set m)"
  by (induction m) force+

lemma distinct_map_set: "distinct (map fst m) \<Longrightarrow> distinct (map fst (map_set k v m))"
  by (induction m) (auto simp: map_set_keys)

lemma map_set_fresh: "k \<notin> fst ` set m \<Longrightarrow> map_set k v m = m @ [(k, v)]"
  by (induction m) auto

lemma find_append:
  "List.find P (xs @ ys) = (case List.find P xs of None \<Rightarrow> List.find P ys | Some x \<Rightarrow> Some x)"
  by (induction xs) auto

subsection \<open>One registration\<close>

lemma registerSkill_eq:
  "registerSkill r sk =
     (if (\<exists>e. getSkill r (s_id sk) = Some e \<and> resolvedPriority r sk < resolvedPriority r e)
      then r else r\<lparr>skills := map_set (s_id sk) sk (skills r)\<rparr>)"
  by (auto simp: registerSkill_def getSkill_def resolvedPriority_def Let_def split: option.splits)

lemma sources_registerSkill: "sources (registerSkill r sk) = sources r"
  by (simp add: registerSkill_eq)

lemma resolvedPriority_registerSkill:
  "resolvedPriority (registerSkill r sk) x = resolvedPriority r x"
  by (simp add: resolvedPriority_def sources_registerSkill)

lemma resolvedPriority_same_source:
  "s_source a = s_source b \<Longrightarrow> resolvedPriority r a = resolvedPriority r b"
  by (simp add: resolvedPriority_def source_matches_def[abs_def])

lemma registerSkill_discard:
  "getSkill r (s_id sk) = Some e \<Longrightarrow> resolvedPriority r sk < resolvedPriority r e \<Longrightarrow>
   registerSkill r sk = r"
  by (auto simp: registerSkill_eq)

lemma getSkill_registerSkill_keep:
  "\<not> (\<exists>e. getSkill r (s_id sk) = Some e \<and> resolvedPriority r sk < resolvedPriority r e) \<Longrightarrow>
   getSkill (registerSkill r sk) i = (if i = s_id sk then Some sk else getSkill r i)"
  by (auto simp: registerSkill_eq getSkill_def map_get_map_set)

text \<open>
  There are two source kinds only, so two skills of different resolved priority are of
  different kinds, and any third skill has the priority of one of them.
\<close>

lemma two_kinds:
  assumes "resolvedPriority r a \<noteq> resolvedPriority r b"
  shows "resolvedPriority r e = resolvedPriority r a \<or> resolvedPriority r e = resolvedPriority r b"
proof -
  have "s_source a \<noteq> s_source b"
    using assms resolvedPriority_same_source by blast
  then have "s_source e = s_source a \<or> s_source e = s_source b"
    by (cases "s_source e"; cases "s_source a"; cases "s_source b") auto
  then show ?thesis
    using resolvedPriority_same_source by blast
qed

subsection \<open>Two registrations of one id\<close>

lemma lower_then_higher:
  assumes "s_id s1 = s_id s2" "resolvedPriority r s1 < resolvedPriority r s2"
  shows "getSkill (registerSkill (registerSkill r s1) s2) (s_id s2) = Some s2"
proof -
  let ?r1 = "registerSkill r s1"
  have le: "resolvedPriority ?r1 e \<le> resolvedPriority ?r1 s2" for e
    using two_kinds[of r s1 s2 e] assms(2) by (auto simp: resolvedPriority_registerSkill)
  have "\<not> (\<exists>e. getSkill ?r1 (s_id s2) = Some e
              \<and> resolvedPriority ?r1 s2 < resolvedPriority ?r1 e)"
    using le by (auto simp: not_less)
  then show ?thesis by (simp add: getSkill_registerSkill_keep)
qed

lemma higher_then_lower:
  assumes "s_id s1 = s_id s2" "resolvedPriority r s1 < resolvedPriority r s2"
  shows "getSkill (registerSkill (registerSkill r s2) s1) (s_id s2) = Some s2"
proof -
  let ?r1 = "registerSkill r s2"
  have le: "resolvedPriority r e \<le> resolvedPriority r s2" for e
    using two_kinds[of r s1 s2 e] assms(2) by auto
  have "\<not> (\<exists>e. getSkill r (s_id s2) = Some e \<and> resolvedPriority r s2 < resolvedPriority r e)"
    using le by (auto simp: not_less)
  then have g: "getSkill ?r1 (s_id s2) = Some s2"
    by (simp add: getSkill_registerSkill_keep)
  have "registerSkill ?r1 s1 = ?r1"
    using g assms
    by (intro registerSkill_discard[where e = s2]) (auto simp: resolvedPriority_registerSkill)
  then show ?thesis using g by simp
qed

lemma equal_last_wins:
  assumes "s_id s1 = s_id s2" "resolvedPriority r s1 = resolvedPriority r s2"
    and "\<And>e. getSkill r (s_id s2) = Some e \<Longrightarrow> resolvedPriority r e \<le> resolvedPriority r s2"
  shows "getSkill (registerSkill (registerSkill r s1) s2) (s_id s2) = Some s2"
proof -
  let ?r1 = "registerSkill r s1"
  have "\<not> (\<exists>e. getSkill r (s_id s1) = Some e \<and> resolvedPriority r s1 < resolvedPriority r e)"
    using assms by (auto simp: not_less)
  then have g: "getSkill ?r1 (s_id s2) = Some s1"
    using assms(1) by (simp add: getSkill_registerSkill_keep)
  have "\<not> (\<exists>e. getSkill ?r1 (s_id s2) = Some e
              \<and> resolvedPriority ?r1 s2 < resolvedPriority ?r1 e)"
    using g assms(2) by (auto simp: resolvedPriority_registerSkill)
  then show ?thesis by (simp add: getSkill_registerSkill_keep)
qed

lemma equal_both_discarded:
  assumes "s_id s1 = s_id s2" "resolvedPriority r s1 = resolvedPriority r s2"
    and "getSkill r (s_id s2) = Some e" "resolvedPriority r s2 < resolvedPriority r e"
  shows "registerSkill (registerSkill r s1) s2 = r"
  using assms by (auto simp: registerSkill_eq)

lemma ex_registry_sources: "sources ex_registry = [ex_local, ex_git]"
  by (simp add: ex_registry_def addSource_def new_registry_def ex_git_def ex_local_def)

lemma ex_resolvedPriority:
  assumes "sources r = [ex_local, ex_git]"
  shows "resolvedPriority r (ex_skill i n Repository) = 1"
    and "resolvedPriority r (ex_skill i n Local) = 2"
  using assms
  by (simp_all add: resolvedPriority_def source_matches_def ex_skill_def ex_git_def ex_local_def)

text \<open>
  Claim C2, as stated, at a concrete input. The registry has a git source of priority 1
  and a local source of priority 2 and already holds the local skill \<open>foo\<close>. Two
  repository skills \<open>foo\<close> are registered one after the other; both have resolved
  priority 1, so \<open>p1 \<le> p2\<close>. Both are discarded: the record from the later
  registration is not the one left in the registry.
\<close>

theorem registerSkill_equal_priority_counterexample:
  "s_id (ex_skill ''foo'' ''A'' Repository) = s_id (ex_skill ''foo'' ''B'' Repository) \<and>
   resolvedPriority (registerSkill ex_registry (ex_skill ''foo'' ''L'' Local))
      (ex_skill ''foo'' ''A'' Repository)
     \<le> resolvedPriority (registerSkill ex_registry (ex_skill ''foo'' ''L'' Local))
          (ex_skill ''foo'' ''B'' Repository) \<and>
   getSkill
     (registerSkill
        (registerSkill (registerSkill ex_registry (ex_skill ''foo'' ''L'' Local))
           (ex_skill ''foo'' ''A'' Repository))
        (ex_skill ''foo'' ''B'' Repository)) ''foo''
     \<noteq> Some (ex_skill ''foo'' ''B'' Repository)"
proof -
  let ?r0 = "registerSkill ex_registry (ex_skill ''foo'' ''L'' Local)"
  have s: "sources ?r0 = [ex_local, ex_git]"
    by (simp add: sources_registerSkill ex_registry_sources)
  have p: "resolvedPriority ?r0 (ex_skill ''foo'' n Repository) = 1"
          "resolvedPriority ?r0 (ex_skill ''foo'' n Local) = 2" for n
    using ex_resolvedPriority[OF s] by simp_all
  have g: "getSkill ?r0 ''foo'' = Some (ex_skill ''foo'' ''L'' Local)"
    by (simp add: getSkill_def map_get_def registerSkill_def ex_registry_def addSource_def
          new_registry_def ex_skill_def)
  have i: "s_id (ex_skill ''foo'' n k) = ''foo''" for n k
    by (simp add: ex_skill_def)
  have d: "registerSkill ?r0 (ex_skill ''foo'' n Repository) = ?r0" for n
    by (rule registerSkill_discard[where e = "ex_skill ''foo'' ''L'' Local"])
       (simp_all add: i g p)
  have "ex_skill ''foo'' ''L'' Local \<noteq> ex_skill ''foo'' ''B'' Repository"
    by (simp add: ex_skill_def)
  then show ?thesis
    by (simp add: d g p i)
qed

text \<open>
  Claim C2, amended. For every registry state and two registrations \<open>s1\<close>, \<open>s2\<close> of
  one id whose resolved priorities are \<open>p1 \<le> p2\<close>, provided the registry does not
  already hold that id from a source kind of resolved priority strictly above \<open>p2\<close>
  (this can only happen when \<open>p1 = p2\<close>): registering \<open>s1\<close> then \<open>s2\<close> leaves \<open>s2\<close> in
  the registry; registering \<open>s2\<close> then \<open>s1\<close> leaves \<open>s2\<close> when \<open>p1 < p2\<close>; when
  \<open>p1 = p2\<close> the later registration wins. And for every registry state,
  \<open>registerSkill\<close> discards the incoming skill exactly when its resolved priority is
  strictly lower than the resolved priority of the skill the registry holds under that
  id; otherwise it stores the incoming skill under its id.
\<close>

theorem registerSkill_override:
  assumes "s_id s1 = s_id s2"
    and "resolvedPriority r s1 \<le> resolvedPriority r s2"
    and "\<forall>e. getSkill r (s_id s2) = Some e \<longrightarrow> resolvedPriority r e \<le> resolvedPriority r s2"
  shows "getSkill (registerSkill (registerSkill r s1) s2) (s_id s2) = Some s2 \<and>
         (resolvedPriority r s1 < resolvedPriority r s2 \<longrightarrow>
            getSkill (registerSkill (registerSkill r s2) s1) (s_id s2) = Some s2) \<and>
         (resolvedPriority r s1 = resolvedPriority r s2 \<longrightarrow>
            getSkill (registerSkill (registerSkill r s2) s1) (s_id s2) = Some s1) \<and>
         registerSkill r' sk =
            (if (\<exists>e. getSkill r' (s_id sk) = Some e
                     \<and> resolvedPriority r' sk < resolvedPriority r' e)
             then r' else r'\<lparr>skills := map_set (s_id sk) sk (skills r')\<rparr>)"
proof (intro conjI impI)
  show "getSkill (registerSkill (registerSkill r s1) s2) (s_id s2) = Some s2"
  proof (cases "resolvedPriority r s1 < resolvedPriority r s2")
    case True
    then show ?thesis using assms(1) by (rule lower_then_higher[rotated])
  next
    case False
    then have "resolvedPriority r s1 = resolvedPriority r s2" using assms(2) by simp
    then show ?thesis using assms(1,3) by (intro equal_last_wins) auto
  qed
next
  assume "resolvedPriority r s1 < resolvedPriority r s2"
  then show "getSkill (registerSkill (registerSkill r s2) s1) (s_id s2) = Some s2"
    using assms(1) by (rule higher_then_lower[rotated])
next
  assume eq: "resolvedPriority r s1 = resolvedPriority r s2"
  have "getSkill (registerSkill (registerSkill r s2) s1) (s_id s1) = Some s1"
    using assms(1,3) eq by (intro equal_last_wins) auto
  then show "getSkill (registerSkill (registerSkill r s2) s1) (s_id s2) = Some s1"
    using assms(1) by simp
next
  show "registerSkill r' sk =
          (if (\<exists>e. getSkill r' (s_id sk) = Some e
                   \<and> resolvedPriority r' sk < resolvedPriority r' e)
           then r' else r'\<lparr>skills := map_set (s_id sk) sk (skills r')\<rparr>)"
    by (rule registerSkill_eq)
qed

theorem registerSkill_override_witness:
  "s_id (ex_skill ''foo'' ''A-foo'' Repository) = s_id (ex_skill ''foo'' ''B-foo'' Local) \<and>
   resolvedPriority ex_registry (ex_skill ''foo'' ''A-foo'' Repository)
     \<le> resolvedPriority ex_registry (ex_skill ''foo'' ''B-foo'' Local) \<and>
   getSkill ex_registry ''foo'' = None \<and>
   getSkill (registerSkill (registerSkill ex_registry (ex_skill ''foo'' ''A-foo'' Repository))
               (ex_skill ''foo'' ''B-foo'' Local)) ''foo''
     = Some (ex_skill ''foo'' ''B-foo'' Local) \<and>
   getSkill (registerSkill (registerSkill ex_registry (ex_skill ''foo'' ''B-foo'' Local))
               (ex_skill ''foo'' ''A-foo'' Repository)) ''foo''
     = Some (ex_skill ''foo'' ''B-foo'' Local)"
proof -
  have p: "resolvedPriority ex_registry (ex_skill ''foo'' n Repository) = 1"
          "resolvedPriority ex_registry (ex_skill ''foo'' n Local) = 2" for n
    using ex_resolvedPriority[OF ex_registry_sources] by simp_all
  have i: "s_id (ex_skill ''foo'' n k) = ''foo''" for n k
    by (simp add: ex_skill_def)
  have g: "getSkill ex_registry ''foo'' = None"
    by (simp add: getSkill_def map_get_def ex_registry_def addSource_def new_registry_def)
  have h: "\<forall>e. getSkill ex_registry (s_id (ex_skill ''foo'' ''B-foo'' Local)) = Some e \<longrightarrow>
             resolvedPriority ex_registry e
               \<le> resolvedPriority ex_registry (ex_skill ''foo'' ''B-foo'' Local)"
    by (simp add: i g)
  have le: "resolvedPriority ex_registry (ex_skill ''foo'' ''A-foo'' Repository)
              \<le> resolvedPriority ex_registry (ex_skill ''foo'' ''B-foo'' Local)"
    by (simp add: p)
  have lt: "resolvedPriority ex_registry (ex_skill ''foo'' ''A-foo'' Repository)
              < resolvedPriority ex_registry (ex_skill ''foo'' ''B-foo'' Local)"
    by (simp add: p)
  have e: "s_id (ex_skill ''foo'' ''A-foo'' Repository) = s_id (ex_skill ''foo'' ''B-foo'' Local)"
    by (simp add: i)
  note w = registerSkill_override[OF e le h]
  from w have c1: "getSkill (registerSkill (registerSkill ex_registry
                      (ex_skill ''foo'' ''A-foo'' Repository)) (ex_skill ''foo'' ''B-foo'' Local))
                    (s_id (ex_skill ''foo'' ''B-foo'' Local)) = Some (ex_skill ''foo'' ''B-foo'' Local)"
    by (rule conjunct1)
  from w lt have c2: "getSkill (registerSkill (registerSkill ex_registry
                      (ex_skill ''foo'' ''B-foo'' Local)) (ex_skill ''foo'' ''A-foo'' Repository))
                    (s_id (ex_skill ''foo'' ''B-foo'' Local)) = Some (ex_skill ''foo'' ''B-foo'' Local)"
    by blast
  show ?thesis
    using c1 c2 e le g by (simp add: i)
qed

section \<open>Snapshots: \<^verbatim>\<open>toJSON\<close> and \<^verbatim>\<open>fromJSON\<close>\<close>

subsection \<open>Replaying the registrations and the source descriptors\<close>

lemma registerSkill_no_sources:
  "sources r = [] \<Longrightarrow> registerSkill r sk = r\<lparr>skills := map_set (s_id sk) sk (skills r)\<rparr>"
  by (simp add: registerSkill_def Let_def split: option.splits)

lemma foldl_registerSkill_no_sources:
  "sources r = [] \<Longrightarrow>
   foldl registerSkill r sks =
     r\<lparr>skills := foldl (\<lambda>m sk. map_set (s_id sk) sk m) (skills r) sks\<rparr>"
proof (induction sks arbitrary: r)
  case Nil
  then show ?case by simp
next
  case (Cons a sks)
  then show ?case by (simp add: registerSkill_no_sources)
qed

lemma map_get_foldl_map_set:
  "map_get (foldl (\<lambda>m sk. map_set (s_id sk) sk m) m sks) i =
     (case List.find (\<lambda>sk. s_id sk = i) (rev sks) of
        Some sk \<Rightarrow> Some sk
      | None \<Rightarrow> map_get m i)"
proof (induction sks arbitrary: m)
  case Nil
  then show ?case by simp
next
  case (Cons a sks)
  show ?case
    by (auto simp: Cons.IH map_get_map_set find_append split: option.splits)
qed

lemma foldl_map_set_distinct:
  "distinct (map fst m @ map s_id sks) \<Longrightarrow>
   foldl (\<lambda>m sk. map_set (s_id sk) sk m) m sks = m @ map (\<lambda>sk. (s_id sk, sk)) sks"
proof (induction sks arbitrary: m)
  case Nil
  then show ?case by simp
next
  case (Cons a sks)
  have "s_id a \<notin> fst ` set m"
    using Cons.prems by auto
  then have "map_set (s_id a) a m = m @ [(s_id a, a)]"
    by (rule map_set_fresh)
  moreover have "distinct (map fst (m @ [(s_id a, a)]) @ map s_id sks)"
    using Cons.prems by auto
  ultimately show ?case
    using Cons.IH[of "m @ [(s_id a, a)]"] by simp
qed

lemma foldl_addSource_sorted:
  "sorted (map (\<lambda>s. - priority s) (sources r @ srcs)) \<Longrightarrow>
   foldl addSource r srcs = r\<lparr>sources := sources r @ srcs\<rparr>"
proof (induction srcs arbitrary: r)
  case Nil
  then show ?case by simp
next
  case (Cons a srcs)
  have "sorted (map (\<lambda>s. - priority s) (sources r @ [a]))"
    using Cons.prems by (simp add: sorted_append)
  then have a: "addSource r a = r\<lparr>sources := sources r @ [a]\<rparr>"
    unfolding addSource_def by (simp only: sort_key_id_if_sorted)
  show ?case
    using Cons.IH[of "addSource r a"] Cons.prems by (simp add: a)
qed

lemma skills_foldl_addSource: "skills (foldl addSource r srcs) = skills r"
  by (induction srcs arbitrary: r) (simp_all add: addSource_def)

lemma keyed_by_id:
  "list_all (\<lambda>(k, sk). k = s_id sk) m \<Longrightarrow> map (\<lambda>sk. (s_id sk, sk)) (map snd m) = m"
  by (induction m) auto

subsection \<open>The invariant of the registry\<close>

lemma wf_new_registry: "wf_registry (new_registry cp)"
  by (simp add: wf_registry_def new_registry_def)

lemma list_all_map_set:
  "list_all (\<lambda>(k, sk). k = s_id sk) m \<Longrightarrow>
   list_all (\<lambda>(k, sk). k = s_id sk) (map_set (s_id sk) sk m)"
  by (induction m) auto

lemma wf_registerSkill: "wf_registry r \<Longrightarrow> wf_registry (registerSkill r sk)"
  by (auto simp: registerSkill_eq wf_registry_def distinct_map_set list_all_map_set)

lemma wf_addSource: "wf_registry r \<Longrightarrow> wf_registry (addSource r src)"
  by (simp add: addSource_def wf_registry_def)

lemma wf_clear: "wf_registry r \<Longrightarrow> wf_registry (clear r)"
  by (simp add: clear_def wf_registry_def)

lemma wf_setLastSync: "wf_registry r \<Longrightarrow> wf_registry (setLastSync r d)"
  by (simp add: setLastSync_def wf_registry_def)

lemma wf_foldl_registerSkill: "wf_registry r \<Longrightarrow> wf_registry (foldl registerSkill r sks)"
  by (induction sks arbitrary: r) (simp_all add: wf_registerSkill)

lemma wf_foldl_addSource: "wf_registry r \<Longrightarrow> wf_registry (foldl addSource r srcs)"
  by (induction srcs arbitrary: r) (simp_all add: wf_addSource)

lemma wf_fromJSON: "wf_registry (fromJSON data)"
  by (simp add: fromJSON_def Let_def wf_new_registry wf_foldl_registerSkill wf_foldl_addSource
        wf_setLastSync split: option.splits)

lemma reachable_wf: "reachable r \<Longrightarrow> wf_registry r"
  by (induction rule: reachable.induct)
     (simp_all add: wf_new_registry wf_fromJSON wf_addSource wf_registerSkill wf_clear
        wf_setLastSync)

subsection \<open>Round trip\<close>

text \<open>
  Claim C6. For every registry state, \<^verbatim>\<open>fromJSON(toJSON())\<close> gives the registry
  back: the same skill records under the same ids (in the same order), the same source
  descriptors, the same last-sync value (and the same cache path). The reconstruction
  is the replay of \<open>registerSkill\<close> over the skills of the snapshot, then of
  \<open>addSource\<close> over its sources, as \<^const>\<open>fromJSON\<close> is defined. The registry states
  are those satisfying \<^const>\<open>wf_registry\<close>, which the constructor establishes
  (\<open>wf_new_registry\<close>) and every method keeps (\<open>wf_registerSkill\<close>, \<open>wf_addSource\<close>,
  \<open>wf_clear\<close>, \<open>wf_setLastSync\<close>, \<open>wf_fromJSON\<close>): every registry a program can
  hold satisfies it (\<open>reachable_wf\<close>).
\<close>

theorem fromJSON_toJSON:
  assumes wf: "wf_registry r"
  shows "fromJSON (toJSON r) = r \<and>
         listSkills (fromJSON (toJSON r)) = listSkills r \<and>
         getSkill (fromJSON (toJSON r)) i = getSkill r i \<and>
         getSources (fromJSON (toJSON r)) = getSources r \<and>
         getLastSync (fromJSON (toJSON r)) = getLastSync r \<and>
         fromJSON (toJSON r) =
           (let r1 = foldl registerSkill (new_registry (cachePath r)) (listSkills r);
                r2 = foldl addSource r1 (getSources r)
            in case getLastSync r of None \<Rightarrow> r2 | Some d \<Rightarrow> setLastSync r2 d)"
proof -
  have k: "map (\<lambda>sk. (s_id sk, sk)) (map snd (skills r)) = skills r"
    by (rule keyed_by_id) (use wf in \<open>simp add: wf_registry_def\<close>)
  have "map fst (map (\<lambda>sk. (s_id sk, sk)) (map snd (skills r))) = map fst (skills r)"
    by (simp only: k)
  then have "map s_id (map snd (skills r)) = map fst (skills r)"
    by (simp add: comp_def)
  moreover have "distinct (map fst (skills r))"
    using wf by (simp add: wf_registry_def)
  ultimately have d: "distinct (map s_id (map snd (skills r)))"
    by (simp only:)
  have s1: "foldl registerSkill (new_registry (cachePath r)) (map snd (skills r))
            = (new_registry (cachePath r))\<lparr>skills := skills r\<rparr>"
    using d k
    by (simp add: foldl_registerSkill_no_sources new_registry_def foldl_map_set_distinct)
  have s2: "foldl addSource ((new_registry (cachePath r))\<lparr>skills := skills r\<rparr>) (sources r)
            = (new_registry (cachePath r))\<lparr>skills := skills r, sources := sources r\<rparr>"
    using wf by (simp add: foldl_addSource_sorted new_registry_def wf_registry_def)
  have replay: "fromJSON (toJSON r) =
           (let r1 = foldl registerSkill (new_registry (cachePath r)) (listSkills r);
                r2 = foldl addSource r1 (getSources r)
            in case getLastSync r of None \<Rightarrow> r2 | Some d \<Rightarrow> setLastSync r2 d)"
    by (cases "lastSync r")
       (simp_all add: fromJSON_def toJSON_def Let_def listSkills_def getSources_def
          getLastSync_def toISOString_def)
  have eq: "fromJSON (toJSON r) = r"
  proof (cases "lastSync r")
    case None
    have "fromJSON (toJSON r)
            = (new_registry (cachePath r))\<lparr>skills := skills r, sources := sources r\<rparr>"
      by (simp add: fromJSON_def toJSON_def Let_def s1 s2 None)
    then show ?thesis
      using None by (simp add: new_registry_def)
  next
    case (Some d)
    have "fromJSON (toJSON r) =
            setLastSync
              ((new_registry (cachePath r))\<lparr>skills := skills r, sources := sources r\<rparr>) d"
      by (simp add: fromJSON_def toJSON_def Let_def s1 s2 Some toISOString_def)
    then show ?thesis
      using Some by (simp add: new_registry_def setLastSync_def)
  qed
  show ?thesis
    using replay by (simp add: eq)
qed

theorem fromJSON_toJSON_witness:
  "wf_registry (setLastSync (registerSkill (registerSkill ex_registry
       (ex_skill ''foo'' ''A-foo'' Repository)) (ex_skill ''bar'' ''B-bar'' Local)) 1700000000000) \<and>
   fromJSON (toJSON (setLastSync (registerSkill (registerSkill ex_registry
       (ex_skill ''foo'' ''A-foo'' Repository)) (ex_skill ''bar'' ''B-bar'' Local)) 1700000000000))
     = setLastSync (registerSkill (registerSkill ex_registry
       (ex_skill ''foo'' ''A-foo'' Repository)) (ex_skill ''bar'' ''B-bar'' Local)) 1700000000000 \<and>
   map s_id (listSkills (fromJSON (toJSON (setLastSync (registerSkill (registerSkill ex_registry
       (ex_skill ''foo'' ''A-foo'' Repository)) (ex_skill ''bar'' ''B-bar'' Local)) 1700000000000))))
     = [''foo'', ''bar'']"
proof -
  let ?r = "setLastSync (registerSkill (registerSkill ex_registry
       (ex_skill ''foo'' ''A-foo'' Repository)) (ex_skill ''bar'' ''B-bar'' Local)) 1700000000000"
  have wf: "wf_registry ?r"
    by (simp add: wf_registry_def setLastSync_def registerSkill_def map_get_def ex_registry_def
          addSource_def new_registry_def ex_skill_def ex_git_def ex_local_def)
  have l: "map s_id (listSkills ?r) = [''foo'', ''bar'']"
    by (simp add: listSkills_def setLastSync_def registerSkill_def map_get_def ex_registry_def
          addSource_def new_registry_def ex_skill_def)
  from fromJSON_toJSON[OF wf] have "fromJSON (toJSON ?r) = ?r"
    by (rule conjunct1)
  then show ?thesis
    using wf l by simp
qed

subsection \<open>Restoring a snapshot that lists an id twice\<close>

lemma sources_foldl_registerSkill: "sources (foldl registerSkill r sks) = sources r"
  by (induction sks arbitrary: r) (simp_all add: sources_registerSkill)

lemma getSkill_fromJSON:
  "getSkill (fromJSON data) i =
     (case snap_skills data of
        None \<Rightarrow> None
      | Some sks \<Rightarrow> List.find (\<lambda>sk. s_id sk = i) (rev sks))"
proof -
  have e: "map_get (foldl (\<lambda>m sk. map_set (s_id sk) sk m) [] sks) i
             = List.find (\<lambda>sk. s_id sk = i) (rev sks)" for sks
    unfolding map_get_foldl_map_set by (simp add: map_get_def split: option.splits)
  have n: "map_get [] i = (None :: skill option)"
    by (simp add: map_get_def)
  show ?thesis
    by (simp add: fromJSON_def Let_def getSkill_def skills_foldl_addSource setLastSync_def
          foldl_registerSkill_no_sources new_registry_def e n split: option.splits)
qed

text \<open>
  Claim C10. \<^verbatim>\<open>fromJSON\<close> registers all skills of the snapshot before it adds any
  source descriptor. So whatever part \<open>pre\<close> of the skill list has been replayed, the
  registry that the next \<open>registerSkill\<close> call sees has no source, and it resolves the
  priority of every skill \<open>x\<close> (the incoming one and the existing one) to 0. Hence an
  entry of the skill list that no later entry shares its id with is the record the
  restored registry holds under that id, whatever entries came before it and whatever
  priorities the snapshot's sources record.
\<close>

theorem fromJSON_later_entry_wins:
  assumes "snap_skills data = Some (pre @ sk # post)"
  shows "sources (foldl registerSkill (new_registry (snap_cachePath data)) pre) = [] \<and>
         resolvedPriority (foldl registerSkill (new_registry (snap_cachePath data)) pre) x = 0 \<and>
         (s_id sk \<notin> s_id ` set post \<longrightarrow> getSkill (fromJSON data) (s_id sk) = Some sk)"
proof (intro conjI impI)
  show s: "sources (foldl registerSkill (new_registry (snap_cachePath data)) pre) = []"
    by (simp add: sources_foldl_registerSkill new_registry_def)
  show "resolvedPriority (foldl registerSkill (new_registry (snap_cachePath data)) pre) x = 0"
    by (simp add: resolvedPriority_def s)
next
  assume "s_id sk \<notin> s_id ` set post"
  then have "List.find (\<lambda>x. s_id x = s_id sk) (rev post) = None"
    unfolding find_None_iff by (metis image_eqI set_rev)
  then show "getSkill (fromJSON data) (s_id sk) = Some sk"
    by (simp add: getSkill_fromJSON assms find_append)
qed

theorem fromJSON_later_entry_wins_witness:
  "getSkill (fromJSON \<lparr>snap_skills = Some [ex_skill ''foo'' ''L'' Local,
                                             ex_skill ''foo'' ''R'' Repository],
                        snap_sources = Some [ex_local, ex_git],
                        snap_cachePath = ''/tmp/cache'',
                        snap_lastSync = None\<rparr>) ''foo''
     = Some (ex_skill ''foo'' ''R'' Repository)"
proof -
  let ?d = "\<lparr>snap_skills = Some [ex_skill ''foo'' ''L'' Local, ex_skill ''foo'' ''R'' Repository],
             snap_sources = Some [ex_local, ex_git],
             snap_cachePath = ''/tmp/cache'',
             snap_lastSync = None\<rparr>"
  have a: "snap_skills ?d = Some ([ex_skill ''foo'' ''L'' Local] @ ex_skill ''foo'' ''R'' Repository # [])"
    by simp
  have i: "s_id (ex_skill ''foo'' ''R'' Repository) = ''foo''"
    by (simp add: ex_skill_def)
  from fromJSON_later_entry_wins[OF a, where x = "ex_skill ''foo'' ''R'' Repository",
      THEN conjunct2, THEN conjunct2]
  have "s_id (ex_skill ''foo'' ''R'' Repository) \<notin> s_id ` set ([] :: skill list) \<longrightarrow>
        getSkill (fromJSON ?d) (s_id (ex_skill ''foo'' ''R'' Repository))
          = Some (ex_skill ''foo'' ''R'' Repository)" .
  then show ?thesis
    by (simp add: i)
qed

section \<open>Properties of skill identifier normalization\<close>

lemma hyphen_not_alnum [simp]: "\<not> is_lower_alnum CHR ''-''"
  by (simp add: is_lower_alnum_def code_def)

lemma lower_char_alnum: "is_lower_alnum c \<Longrightarrow> lower_char c = c"
  by (auto simp: is_lower_alnum_def lower_char_def)

lemma lower_char_hyphen [simp]: "lower_char CHR ''-'' = CHR ''-''"
  by (simp add: lower_char_def code_def)

lemma id_chars_replace: "list_all id_char (replace_non_alnum_runs s)"
  by (induction s rule: replace_non_alnum_runs.induct) (auto simp: id_char_def)

lemma hd_replace_alnum:
  "replace_non_alnum_runs (dropWhile (\<lambda>x. \<not> is_lower_alnum x) cs) = [] \<or>
   is_lower_alnum (hd (replace_non_alnum_runs (dropWhile (\<lambda>x. \<not> is_lower_alnum x) cs)))"
proof (cases "dropWhile (\<lambda>x. \<not> is_lower_alnum x) cs")
  case Nil
  then show ?thesis by (simp del: dropWhile_eq_Nil_conv)
next
  case (Cons a list)
  then have "is_lower_alnum a"
    using hd_dropWhile[of "\<lambda>x. \<not> is_lower_alnum x" cs] by auto
  then show ?thesis using Cons by simp
qed

lemma adjacent_Cons:
  "adjacent_separators (a # s) =
     ((s \<noteq> [] \<and> \<not> is_lower_alnum a \<and> \<not> is_lower_alnum (hd s)) \<or> adjacent_separators s)"
  by (cases s) auto

lemma no_adjacent_replace: "\<not> adjacent_separators (replace_non_alnum_runs s)"
proof (induction s rule: replace_non_alnum_runs.induct)
  case 1
  then show ?case by simp
next
  case (2 c cs)
  show ?case
  proof (cases "is_lower_alnum c")
    case True
    then show ?thesis using 2 by (simp add: adjacent_Cons)
  next
    case False
    then show ?thesis using 2 hd_replace_alnum[of cs] by (auto simp: adjacent_Cons)
  qed
qed

lemma adjacent_append:
  "adjacent_separators (xs @ ys) =
     (adjacent_separators xs \<or> adjacent_separators ys \<or>
      (xs \<noteq> [] \<and> ys \<noteq> [] \<and> \<not> is_lower_alnum (last xs) \<and> \<not> is_lower_alnum (hd ys)))"
proof (induction xs)
  case Nil
  then show ?case by simp
next
  case (Cons a xs)
  then show ?case by (cases xs; cases ys) (auto simp: adjacent_Cons)
qed

lemma adjacent_rev: "adjacent_separators (rev xs) = adjacent_separators xs"
proof (induction xs)
  case Nil
  then show ?case by simp
next
  case (Cons a xs)
  then show ?case by (auto simp: adjacent_append adjacent_Cons last_rev)
qed

lemma adjacent_dropWhile: "adjacent_separators (dropWhile P xs) \<Longrightarrow> adjacent_separators xs"
  by (induction xs) (auto simp: adjacent_Cons split: if_splits)

lemma no_adjacent_strip: "\<not> adjacent_separators s \<Longrightarrow> \<not> adjacent_separators (strip_hyphens s)"
  unfolding strip_hyphens_def adjacent_rev
  using adjacent_dropWhile adjacent_rev by blast

lemma list_all_dropWhile: "list_all Q xs \<Longrightarrow> list_all Q (dropWhile P xs)"
  by (induction xs) auto

lemma id_chars_strip: "list_all id_char s \<Longrightarrow> list_all id_char (strip_hyphens s)"
  by (simp add: strip_hyphens_def list_all_dropWhile)

lemma strip_edges:
  "strip_hyphens s = [] \<or> (hd (strip_hyphens s) \<noteq> CHR ''-'' \<and> last (strip_hyphens s) \<noteq> CHR ''-'')"
proof (cases "strip_hyphens s = []")
  case True
  then show ?thesis by simp
next
  case False
  define P where "P = (\<lambda>c. c = CHR ''-'')"
  define d where "d = dropWhile P s"
  define e where "e = dropWhile P (rev d)"
  have st: "strip_hyphens s = rev e"
    by (simp add: strip_hyphens_def e_def d_def P_def)
  have e: "e \<noteq> []" using False st by simp
  have "\<not> P (hd e)"
    unfolding e_def by (rule hd_dropWhile) (use e in \<open>simp add: e_def\<close>)
  then have l: "\<not> P (last (rev e))"
    by (simp add: last_rev)
  have "\<not> (\<forall>x\<in>set (rev d). P x)"
    using e unfolding e_def dropWhile_eq_Nil_conv .
  then obtain x where x: "x \<in> set (rev d)" "\<not> P x"
    by blast
  then have dne: "d \<noteq> []" by auto
  have "last e = last (rev d)"
    unfolding e_def using x by (rule dropWhile_last)
  also have "\<dots> = hd d"
    by (rule last_rev)
  finally have "hd (rev e) = hd d"
    by (simp add: hd_rev)
  moreover have "\<not> P (hd d)"
    unfolding d_def by (rule hd_dropWhile) (use dne in \<open>simp add: d_def\<close>)
  ultimately have "\<not> P (hd (rev e))" by simp
  then show ?thesis using l by (simp add: st P_def)
qed

lemma toLowerCase_id: "list_all id_char s \<Longrightarrow> toLowerCase s = s"
  by (induction s) (auto simp: toLowerCase_def id_char_def lower_char_alnum)

lemma replace_id:
  "list_all id_char s \<Longrightarrow> \<not> adjacent_separators s \<Longrightarrow> replace_non_alnum_runs s = s"
proof (induction s rule: replace_non_alnum_runs.induct)
  case 1
  then show ?case by simp
next
  case (2 c cs)
  show ?case
  proof (cases "is_lower_alnum c")
    case True
    then show ?thesis using 2 by (simp add: adjacent_Cons)
  next
    case False
    have "cs = [] \<or> is_lower_alnum (hd cs)"
      using "2.prems"(2) False by (simp add: adjacent_Cons)
    then have d: "dropWhile (\<lambda>x. \<not> is_lower_alnum x) cs = cs"
      by (cases cs) auto
    have "c = CHR ''-''" using "2.prems"(1) False by (simp add: id_char_def)
    then show ?thesis using 2 False d by (simp add: adjacent_Cons)
  qed
qed

lemma strip_id:
  "s = [] \<or> (hd s \<noteq> CHR ''-'' \<and> last s \<noteq> CHR ''-'') \<Longrightarrow> strip_hyphens s = s"
proof (cases s)
  case Nil
  then show ?thesis by (simp add: strip_hyphens_def)
next
  case (Cons a list)
  assume "s = [] \<or> (hd s \<noteq> CHR ''-'' \<and> last s \<noteq> CHR ''-'')"
  then have h: "hd s \<noteq> CHR ''-''" "last s \<noteq> CHR ''-''" using Cons by auto
  have ne: "s \<noteq> []" using Cons by simp
  have 1: "dropWhile (\<lambda>c. c = CHR ''-'') s = s" using h(1) Cons by simp
  have "hd (rev s) = last s" by (rule hd_rev)
  then have "rev s \<noteq> []" "hd (rev s) \<noteq> CHR ''-''" using h(2) ne by simp_all
  then have 2: "dropWhile (\<lambda>c. c = CHR ''-'') (rev s) = rev s"
    by (cases "rev s") auto
  show ?thesis by (simp add: strip_hyphens_def 1 2)
qed

lemma normalizeSkillId_idem: "normalizeSkillId (normalizeSkillId x) = normalizeSkillId x"
proof -
  let ?n = "normalizeSkillId x"
  have a: "list_all id_char ?n"
    by (simp add: normalizeSkillId_def id_chars_strip id_chars_replace)
  have b: "\<not> adjacent_separators ?n"
    by (simp add: normalizeSkillId_def no_adjacent_strip no_adjacent_replace)
  have c: "?n = [] \<or> (hd ?n \<noteq> CHR ''-'' \<and> last ?n \<noteq> CHR ''-'')"
    unfolding normalizeSkillId_def by (rule strip_edges)
  have "normalizeSkillId ?n = strip_hyphens (replace_non_alnum_runs (toLowerCase ?n))"
    by (simp add: normalizeSkillId_def)
  also have "\<dots> = strip_hyphens ?n"
    by (simp add: toLowerCase_id[OF a] replace_id[OF a b])
  also have "\<dots> = ?n" by (rule strip_id[OF c])
  finally show ?thesis .
qed

lemma id_char_not_upper: "id_char c \<Longrightarrow> \<not> is_upper c"
  by (auto simp: id_char_def is_upper_def lower_char_alnum)

subsection \<open>The identifier is the runs of the input joined by hyphens\<close>

lemma alnum_runs_Nil: "alnum_runs [] = []"
  by (simp add: alnum_runs.simps)

lemma alnum_runs_skip: "alnum_runs (dropWhile (\<lambda>c. \<not> is_lower_alnum c) s) = alnum_runs s"
proof -
  have "dropWhile (\<lambda>c. \<not> is_lower_alnum c) (dropWhile (\<lambda>c. \<not> is_lower_alnum c) s)
          = dropWhile (\<lambda>c. \<not> is_lower_alnum c) s"
    by (rule dropWhile_idem)
  then show ?thesis
    by (subst alnum_runs.simps, subst (2) alnum_runs.simps) (simp only:)
qed

lemma alnum_runs_alnum:
  "is_lower_alnum c \<Longrightarrow>
   alnum_runs (c # cs) = takeWhile is_lower_alnum (c # cs) # alnum_runs (dropWhile is_lower_alnum (c # cs))"
  by (subst alnum_runs.simps) simp

lemma replace_takeWhile:
  "replace_non_alnum_runs s =
     takeWhile is_lower_alnum s @ replace_non_alnum_runs (dropWhile is_lower_alnum s)"
  by (induction s) auto

lemma strip_tail_id: "t \<noteq> [] \<Longrightarrow> last t \<noteq> CHR ''-'' \<Longrightarrow> strip_tail t = t"
proof -
  assume a: "t \<noteq> []" "last t \<noteq> CHR ''-''"
  have "hd (rev t) = last t" by (rule hd_rev)
  then have "rev t \<noteq> []" "hd (rev t) \<noteq> CHR ''-''"
    using a by simp_all
  then have "dropWhile (\<lambda>c. c = CHR ''-'') (rev t) = rev t"
    by (cases "rev t") auto
  then show ?thesis by (simp add: strip_tail_def)
qed

lemma strip_tail_hyphen: "strip_tail (t @ ''-'') = strip_tail t"
  by (simp add: strip_tail_def)

lemma strip_tail_append: "strip_tail t \<noteq> [] \<Longrightarrow> strip_tail (u @ t) = u @ strip_tail t"
proof -
  assume "strip_tail t \<noteq> []"
  then have "\<not> (\<forall>x\<in>set (rev t). x = CHR ''-'')"
    by (simp add: strip_tail_def)
  then obtain x where "x \<in> set (rev t)" "x \<noteq> CHR ''-''"
    by blast
  then have "dropWhile (\<lambda>c. c = CHR ''-'') (rev t @ rev u)
               = dropWhile (\<lambda>c. c = CHR ''-'') (rev t) @ rev u"
    by (intro dropWhile_append1) auto
  then show ?thesis
    by (simp add: strip_tail_def)
qed

lemma join_Cons: "ys \<noteq> [] \<Longrightarrow> join sep (x # ys) = x @ sep @ join sep ys"
  by (cases ys) auto

lemma takeWhile_alnum_last:
  "is_lower_alnum c \<Longrightarrow> takeWhile is_lower_alnum (c # cs) \<noteq> [] \<and>
     last (takeWhile is_lower_alnum (c # cs)) \<noteq> CHR ''-''"
proof -
  assume c: "is_lower_alnum c"
  let ?r = "takeWhile is_lower_alnum (c # cs)"
  have ne: "?r \<noteq> []" using c by simp
  then have "last ?r \<in> set ?r" by (rule last_in_set)
  then have "is_lower_alnum (last ?r)" by (rule set_takeWhileD[THEN conjunct2])
  then show ?thesis using ne by auto
qed

lemma strip_tail_replace:
  "s = [] \<or> is_lower_alnum (hd s) \<Longrightarrow>
   strip_tail (replace_non_alnum_runs s) = join ''-'' (alnum_runs s)"
proof (induction s rule: length_induct)
  case (1 s)
  show ?case
  proof (cases s)
    case Nil
    then show ?thesis by (simp add: alnum_runs_Nil strip_tail_def)
  next
    case (Cons c cs)
    then have c: "is_lower_alnum c" using "1.prems" by simp
    define r where "r = takeWhile is_lower_alnum (c # cs)"
    define d where "d = dropWhile is_lower_alnum (c # cs)"
    have r: "r \<noteq> []" "last r \<noteq> CHR ''-''"
      using takeWhile_alnum_last[OF c, of cs] by (simp_all add: r_def)
    have rep: "replace_non_alnum_runs s = r @ replace_non_alnum_runs d"
      unfolding Cons r_def d_def by (rule replace_takeWhile)
    have runs: "alnum_runs s = r # alnum_runs d"
      unfolding Cons r_def d_def by (rule alnum_runs_alnum[OF c])
    show ?thesis
    proof (cases d)
      case Nil
      then show ?thesis
        using r by (simp add: rep runs alnum_runs_Nil strip_tail_id)
    next
      case (Cons x xs)
      have x: "\<not> is_lower_alnum x"
        using hd_dropWhile[of is_lower_alnum "c # cs"] Cons by (simp add: d_def)
      define d' where "d' = dropWhile (\<lambda>c. \<not> is_lower_alnum c) xs"
      have repd: "replace_non_alnum_runs d = CHR ''-'' # replace_non_alnum_runs d'"
        using x by (simp add: Cons d'_def)
      have "dropWhile (\<lambda>c. \<not> is_lower_alnum c) d = d'"
        using x by (simp add: Cons d'_def)
      then have runsd: "alnum_runs d = alnum_runs d'"
        using alnum_runs_skip[of d] by simp
      have "length d \<le> length (c # cs)"
        unfolding d_def by (rule length_dropWhile_le)
      moreover have "length d' \<le> length xs"
        unfolding d'_def by (rule length_dropWhile_le)
      ultimately have len: "length d' < length s"
        using Cons \<open>s = c # cs\<close> by simp
      have start: "d' = [] \<or> is_lower_alnum (hd d')"
        using hd_dropWhile[of "\<lambda>c. \<not> is_lower_alnum c" xs] by (auto simp: d'_def)
      have IH: "strip_tail (replace_non_alnum_runs d') = join ''-'' (alnum_runs d')"
        using "1.IH" len start by blast
      show ?thesis
      proof (cases d')
        case Nil
        have "strip_tail (r @ ''-'') = strip_tail r"
          by (rule strip_tail_hyphen)
        also have "\<dots> = r"
          using r by (rule strip_tail_id)
        finally have "strip_tail (r @ ''-'') = r" .
        then show ?thesis
          by (simp add: rep runs repd runsd Nil alnum_runs_Nil)
      next
        case (Cons y ys)
        then have y: "is_lower_alnum y" using start by simp
        have rd: "alnum_runs d' = takeWhile is_lower_alnum (y # ys)
                    # alnum_runs (dropWhile is_lower_alnum (y # ys))"
          unfolding Cons by (rule alnum_runs_alnum[OF y])
        then have ne: "alnum_runs d' \<noteq> []" by simp
        have "join ''-'' (alnum_runs d') \<noteq> []"
          using y by (subst rd, cases "alnum_runs (dropWhile is_lower_alnum (y # ys))") auto
        then have st: "strip_tail (replace_non_alnum_runs d') \<noteq> []"
          using IH by simp
        have "strip_tail ((r @ ''-'') @ replace_non_alnum_runs d')
                = (r @ ''-'') @ strip_tail (replace_non_alnum_runs d')"
          using st by (rule strip_tail_append)
        then show ?thesis
          using ne by (simp add: rep runs repd runsd IH join_Cons)
      qed
    qed
  qed
qed

lemma replace_starts_alnum:
  "s = [] \<or> is_lower_alnum (hd s) \<Longrightarrow>
   dropWhile (\<lambda>c. c = CHR ''-'') (replace_non_alnum_runs s) = replace_non_alnum_runs s"
  by (cases s) auto

lemma dropWhile_hyphen_replace:
  "dropWhile (\<lambda>c. c = CHR ''-'') (replace_non_alnum_runs s)
     = replace_non_alnum_runs (dropWhile (\<lambda>c. \<not> is_lower_alnum c) s)"
proof (cases s)
  case Nil
  then show ?thesis by simp
next
  case (Cons c cs)
  show ?thesis
  proof (cases "is_lower_alnum c")
    case True
    then show ?thesis using Cons by auto
  next
    case False
    let ?d = "dropWhile (\<lambda>c. \<not> is_lower_alnum c) cs"
    have "?d = [] \<or> is_lower_alnum (hd ?d)"
      using hd_dropWhile[of "\<lambda>c. \<not> is_lower_alnum c" cs] by auto
    then have "dropWhile (\<lambda>c. c = CHR ''-'') (replace_non_alnum_runs ?d) = replace_non_alnum_runs ?d"
      by (rule replace_starts_alnum)
    then show ?thesis using Cons False by simp
  qed
qed

lemma normalizeSkillId_refines: "normalizeSkillId i = normalizeSkillId_spec i"
proof -
  let ?s = "toLowerCase i"
  let ?d = "dropWhile (\<lambda>c. \<not> is_lower_alnum c) ?s"
  have start: "?d = [] \<or> is_lower_alnum (hd ?d)"
    using hd_dropWhile[of "\<lambda>c. \<not> is_lower_alnum c" ?s] by auto
  have "normalizeSkillId i = strip_tail (replace_non_alnum_runs ?d)"
    by (simp add: normalizeSkillId_def strip_hyphens_def strip_tail_def dropWhile_hyphen_replace)
  also have "\<dots> = join ''-'' (alnum_runs ?d)"
    using start by (rule strip_tail_replace)
  also have "\<dots> = join ''-'' (alnum_runs ?s)"
    by (simp only: alnum_runs_skip)
  finally show ?thesis
    by (simp add: normalizeSkillId_spec_def)
qed

lemma concat_alnum_runs: "concat (alnum_runs s) = filter is_lower_alnum s"
proof (induction s rule: length_induct)
  case (1 s)
  define d where "d = dropWhile (\<lambda>c. \<not> is_lower_alnum c) s"
  have fd: "filter is_lower_alnum s = filter is_lower_alnum d"
  proof -
    have "s = takeWhile (\<lambda>c. \<not> is_lower_alnum c) s @ d"
      by (simp add: d_def)
    then have "filter is_lower_alnum s
                 = filter is_lower_alnum (takeWhile (\<lambda>c. \<not> is_lower_alnum c) s)
                   @ filter is_lower_alnum d"
      by (metis filter_append)
    moreover have "filter is_lower_alnum (takeWhile (\<lambda>c. \<not> is_lower_alnum c) s) = []"
      by (auto simp: filter_empty_conv dest: set_takeWhileD)
    ultimately show ?thesis by simp
  qed
  show ?case
  proof (cases d)
    case Nil
    have dn: "dropWhile (\<lambda>c. \<not> is_lower_alnum c) s = []"
      using Nil unfolding d_def .
    have "alnum_runs s = []"
      by (subst alnum_runs.simps) (simp only: dn list.case)
    then show ?thesis
      using fd Nil by simp
  next
    case (Cons c cs)
    have dc: "dropWhile (\<lambda>c. \<not> is_lower_alnum c) s = c # cs"
      using Cons unfolding d_def .
    have c: "is_lower_alnum c"
      using hd_dropWhile[of "\<lambda>c. \<not> is_lower_alnum c" s] dc by simp
    define e where "e = dropWhile is_lower_alnum (c # cs)"
    have "length e \<le> length cs"
      using c by (simp add: e_def length_dropWhile_le)
    moreover have "length d \<le> length s"
      unfolding d_def by (rule length_dropWhile_le)
    ultimately have "length e < length s"
      using Cons by simp
    then have IH: "concat (alnum_runs e) = filter is_lower_alnum e"
      using "1.IH" by blast
    have "alnum_runs s = alnum_runs d"
      unfolding d_def by (rule alnum_runs_skip[symmetric])
    also have "\<dots> = takeWhile is_lower_alnum (c # cs) # alnum_runs e"
      unfolding Cons e_def by (rule alnum_runs_alnum[OF c])
    finally have runs: "alnum_runs s = takeWhile is_lower_alnum (c # cs) # alnum_runs e" .
    have "filter is_lower_alnum (takeWhile is_lower_alnum (c # cs)) = takeWhile is_lower_alnum (c # cs)"
      by (auto simp: filter_id_conv dest: set_takeWhileD)
    moreover have "d = takeWhile is_lower_alnum (c # cs) @ e"
      by (simp add: Cons e_def)
    then have "filter is_lower_alnum d
                 = filter is_lower_alnum (takeWhile is_lower_alnum (c # cs)) @ filter is_lower_alnum e"
      by (metis filter_append)
    ultimately show ?thesis
      using fd IH by (simp add: runs)
  qed
qed

lemma filter_join_runs:
  "filter is_lower_alnum (join ''-'' rs) = filter is_lower_alnum (concat rs)"
  by (induction "''-''" rs rule: join.induct) simp_all

text \<open>
  Claim C7. For every input string, normalizing twice is normalizing once. The output
  contains no upper-case character (indeed only characters of \<^verbatim>\<open>[a-z0-9]\<close> and
  hyphens), it neither begins nor ends with the separator, and no two neighbouring
  characters of it are both outside \<^verbatim>\<open>[a-z0-9]\<close>. And the output is what the spec
  says of the input: the maximal runs of \<^verbatim>\<open>[a-z0-9]\<close> characters of the lower-cased
  input, in their order, with a single hyphen in the place of every run of other
  characters between two of them, and nothing for such a run at either end; so the
  alphanumeric characters of the output are those of the lower-cased input.
\<close>

theorem normalizeSkillId_normal_form:
  "normalizeSkillId (normalizeSkillId x) = normalizeSkillId x \<and>
   \<not> list_ex is_upper (normalizeSkillId x) \<and>
   list_all id_char (normalizeSkillId x) \<and>
   \<not> (\<exists>t. normalizeSkillId x = CHR ''-'' # t) \<and>
   \<not> (\<exists>t. normalizeSkillId x = t @ [CHR ''-'']) \<and>
   \<not> adjacent_separators (normalizeSkillId x) \<and>
   normalizeSkillId x = normalizeSkillId_spec x \<and>
   normalizeSkillId x = join ''-'' (alnum_runs (toLowerCase x)) \<and>
   concat (alnum_runs (toLowerCase x)) = filter is_lower_alnum (toLowerCase x) \<and>
   filter is_lower_alnum (normalizeSkillId x) = filter is_lower_alnum (toLowerCase x)"
proof -
  let ?n = "normalizeSkillId x"
  have a: "list_all id_char ?n"
    by (simp add: normalizeSkillId_def id_chars_strip id_chars_replace)
  have b: "\<not> adjacent_separators ?n"
    by (simp add: normalizeSkillId_def no_adjacent_strip no_adjacent_replace)
  have c: "?n = [] \<or> (hd ?n \<noteq> CHR ''-'' \<and> last ?n \<noteq> CHR ''-'')"
    unfolding normalizeSkillId_def by (rule strip_edges)
  have u: "\<not> list_ex is_upper ?n"
    using a by (auto simp: list_ex_iff list_all_iff id_char_not_upper)
  have h: "\<not> (\<exists>t. ?n = CHR ''-'' # t)"
    using c by auto
  have l: "\<not> (\<exists>t. ?n = t @ [CHR ''-''])"
    using c by auto
  have r: "?n = normalizeSkillId_spec x"
    by (rule normalizeSkillId_refines)
  have r': "?n = join ''-'' (alnum_runs (toLowerCase x))"
    using r by (simp add: normalizeSkillId_spec_def)
  have k: "concat (alnum_runs (toLowerCase x)) = filter is_lower_alnum (toLowerCase x)"
    by (rule concat_alnum_runs)
  have "filter is_lower_alnum ?n
          = filter is_lower_alnum (join ''-'' (alnum_runs (toLowerCase x)))"
    using r' by simp
  also have "\<dots> = filter is_lower_alnum (concat (alnum_runs (toLowerCase x)))"
    by (rule filter_join_runs)
  also have "\<dots> = filter is_lower_alnum (toLowerCase x)"
    by (simp add: k)
  finally have f: "filter is_lower_alnum ?n = filter is_lower_alnum (toLowerCase x)" .
  show ?thesis
    using a b u h l r[symmetric] r'[symmetric] k f by (simp add: normalizeSkillId_idem)
qed

theorem normalizeSkillId_normal_form_witness:
  "normalizeSkillId ''  My_Skill -- Name!! '' = ''my-skill-name'' \<and>
   normalizeSkillId (normalizeSkillId ''  My_Skill -- Name!! '')
     = normalizeSkillId ''  My_Skill -- Name!! '' \<and>
   alnum_runs (toLowerCase ''  My_Skill -- Name!! '') = [''my'', ''skill'', ''name''] \<and>
   normalizeSkillId_spec ''  My_Skill -- Name!! '' = ''my-skill-name'' \<and>
   normalizeSkillId ''My Skill'' = ''my-skill''"
proof -
  have v: "normalizeSkillId ''  My_Skill -- Name!! '' = ''my-skill-name''"
    by code_simp
  have w: "normalizeSkillId ''My Skill'' = ''my-skill''"
    by code_simp
  have rs: "alnum_runs (toLowerCase ''  My_Skill -- Name!! '') = [''my'', ''skill'', ''name'']"
    by code_simp
  note t = normalizeSkillId_normal_form[of "''  My_Skill -- Name!! ''"]
  from t have i: "normalizeSkillId (normalizeSkillId ''  My_Skill -- Name!! '')
          = normalizeSkillId ''  My_Skill -- Name!! ''"
    by (rule conjunct1)
  from t have "normalizeSkillId ''  My_Skill -- Name!! ''
                 = normalizeSkillId_spec ''  My_Skill -- Name!! ''"
    by blast
  then have sp: "normalizeSkillId_spec ''  My_Skill -- Name!! '' = ''my-skill-name''"
    using v by simp
  show ?thesis
    using v w rs i sp by simp
qed

section \<open>Requiredness of a parsed parameter\<close>

text \<open>
  Claim C9, as stated, at a concrete input: the bullet line
  \<^verbatim>\<open>- foo (string): Required for all requests\<close>. Its parenthetical has no second
  token, so the line carries no explicit \<^verbatim>\<open>required\<close>/\<^verbatim>\<open>optional\<close> token, and its
  description contains the word \<^verbatim>\<open>required\<close>; the parameter is parsed as optional.
\<close>

theorem isRequired_hint_counterexample:
  "explicitRequired (m_typeHintRaw \<lparr>m_name = ''foo'', m_typeHintRaw = Some ''string'',
        m_description = ''Required for all requests''\<rparr>) = None \<and>
   claimed_required (m_description \<lparr>m_name = ''foo'', m_typeHintRaw = Some ''string'',
        m_description = ''Required for all requests''\<rparr>) \<and>
   \<not> p_required (parameter_of_match \<lparr>m_name = ''foo'', m_typeHintRaw = Some ''string'',
        m_description = ''Required for all requests''\<rparr>)"
  by code_simp

text \<open>
  Claim C9, amended. For every parsed parameter bullet line that carries no explicit
  \<^verbatim>\<open>required\<close>/\<^verbatim>\<open>optional\<close> token, the requiredness is inferred from the lower-cased
  description. When the line has no parenthetical, the parameter is optional when the
  description contains \<^verbatim>\<open>optional\<close> or \<^verbatim>\<open>default\<close>; otherwise it is required when the
  description contains \<^verbatim>\<open>required\<close>, and optional when none of the three words
  appears. When the line has a parenthetical (a type hint without a second token
  \<^verbatim>\<open>required\<close> or \<^verbatim>\<open>optional\<close>), the parameter is required exactly when the description
  contains \<^verbatim>\<open>(required)\<close> or \<^verbatim>\<open>is required\<close>.
\<close>

theorem isRequired_inferred:
  assumes "explicitRequired (m_typeHintRaw m) = None"
  shows "p_required (parameter_of_match m) =
           (case truthy_hint (m_typeHintRaw m) of
              None \<Rightarrow>
                \<not> js_includes (toLowerCase (m_description m)) ''optional'' \<and>
                \<not> js_includes (toLowerCase (m_description m)) ''default'' \<and>
                js_includes (toLowerCase (m_description m)) ''required''
            | Some raw \<Rightarrow>
                js_includes (toLowerCase (m_description m)) ''(required)'' \<or>
                js_includes (toLowerCase (m_description m)) ''is required'')"
  using assms
  by (simp add: parameter_of_match_def isRequired_def Let_def split: option.splits)

theorem isRequired_inferred_witness:
  "explicitRequired (m_typeHintRaw \<lparr>m_name = ''user'', m_typeHintRaw = None,
        m_description = ''The required user name''\<rparr>) = None \<and>
   p_required (parameter_of_match \<lparr>m_name = ''user'', m_typeHintRaw = None,
        m_description = ''The required user name''\<rparr>) \<and>
   explicitRequired (m_typeHintRaw \<lparr>m_name = ''user'', m_typeHintRaw = Some ''string'',
        m_description = ''This value is required''\<rparr>) = None \<and>
   p_required (parameter_of_match \<lparr>m_name = ''user'', m_typeHintRaw = Some ''string'',
        m_description = ''This value is required''\<rparr>)"
proof -
  let ?a = "\<lparr>m_name = ''user'', m_typeHintRaw = None, m_description = ''The required user name''\<rparr>"
  let ?b = "\<lparr>m_name = ''user'', m_typeHintRaw = Some ''string'',
             m_description = ''This value is required''\<rparr>"
  have ea: "explicitRequired (m_typeHintRaw ?a) = None"
    by code_simp
  have eb: "explicitRequired (m_typeHintRaw ?b) = None"
    by code_simp
  have ta: "truthy_hint (m_typeHintRaw ?a) = None"
    by code_simp
  have tb: "truthy_hint (m_typeHintRaw ?b) = Some ''string''"
    by code_simp
  have ia: "js_includes (toLowerCase (m_description ?a)) ''required''"
           "\<not> js_includes (toLowerCase (m_description ?a)) ''optional''"
           "\<not> js_includes (toLowerCase (m_description ?a)) ''default''"
    by code_simp+
  have ib: "js_includes (toLowerCase (m_description ?b)) ''is required''"
    by code_simp
  have "p_required (parameter_of_match ?a)"
    using isRequired_inferred[OF ea] by (simp only: ta ia option.case simp_thms)
  moreover have "p_required (parameter_of_match ?b)"
    using isRequired_inferred[OF eb] by (simp only: tb ib option.case simp_thms)
  ultimately show ?thesis
    using ea eb by simp
qed

section \<open>Links whose documents cannot be fetched\<close>

lemma fetch_candidates_never_throws:
  "\<exists>r. fetch_candidates parseMarkdown overrides net now link source files = Inr r"
  by (induction files) (auto split: fetch_result.splits option.splits)

lemma fetch_candidates_all_fail:
  "list_all (\<lambda>file. fetch_fails (net (rawUrl link file))) files \<Longrightarrow>
   fetch_candidates parseMarkdown overrides net now link source files = Inr None"
  by (induction files) (auto simp: fetch_fails_def split: fetch_result.splits option.splits)

lemma parseSkillsFromReadme_all_fail:
  "list_all (\<lambda>link. list_all (\<lambda>file. fetch_fails (net (rawUrl link file))) possibleFiles)
     skillLinks \<Longrightarrow>
   parseSkillsFromReadme parseMarkdown overrides net now source skillLinks = []"
  by (induction skillLinks)
     (simp_all add: fetchSkillFromGitHub_def fetch_candidates_all_fail)

lemma fetch_candidates_Some:
  "fetch_candidates parseMarkdown overrides net now link source files = Inr (Some sk) \<Longrightarrow>
   \<exists>content. sk = fetched_skill overrides now link source (parseMarkdown content)"
  by (induction files) (auto split: fetch_result.splits option.splits if_splits)

text \<open>
  Every skill in the parser's output is a fetched document: no execution puts the stub
  of a link there, whatever the network does.
\<close>

lemma parseSkillsFromReadme_no_stub:
  "sk \<in> set (parseSkillsFromReadme parseMarkdown overrides net now source skillLinks) \<Longrightarrow>
   \<exists>link content. link \<in> set skillLinks \<and>
      sk = fetched_skill overrides now link source (parseMarkdown content)"
proof (induction skillLinks)
  case Nil
  then show ?case by simp
next
  case (Cons link skillLinks)
  obtain r where r: "fetchSkillFromGitHub parseMarkdown overrides net now link source = Inr r"
    unfolding fetchSkillFromGitHub_def using fetch_candidates_never_throws by blast
  show ?case
  proof (cases r)
    case None
    then have "sk \<in> set (parseSkillsFromReadme parseMarkdown overrides net now source skillLinks)"
      using Cons.prems r by simp
    then show ?thesis
      using Cons.IH by (metis list.set_intros(2))
  next
    case (Some fetched)
    then have "sk = fetched \<or>
               sk \<in> set (parseSkillsFromReadme parseMarkdown overrides net now source skillLinks)"
      using Cons.prems r by auto
    then show ?thesis
    proof
      assume "sk = fetched"
      then have "\<exists>content. sk = fetched_skill overrides now link source (parseMarkdown content)"
        using r Some fetch_candidates_Some unfolding fetchSkillFromGitHub_def by blast
      then show ?thesis
        by (metis list.set_intros(1))
    next
      assume "sk \<in> set (parseSkillsFromReadme parseMarkdown overrides net now source skillLinks)"
      then show ?thesis
        using Cons.IH by (metis list.set_intros(2))
    qed
  qed
qed

text \<open>
  Claim C1 on the code. The README lists one link, and every request for its
  document is answered with a response that is not \<^verbatim>\<open>ok\<close> (a 404), for all three
  candidate file names. \<open>fetchSkillFromGitHub\<close> returns \<^verbatim>\<open>null\<close> and throws nothing,
  so the \<^verbatim>\<open>catch\<close> branch that would push the stub is not taken: the result of the
  parser is empty, and differs from the list holding the stub of the link.
\<close>

theorem parseSkillsFromReadme_drops_link:
  "fetchSkillFromGitHub parseMarkdown overrides (\<lambda>url. Response False None) now ex_link Repository
     = Inr None \<and>
   parseSkillsFromReadme parseMarkdown overrides (\<lambda>url. Response False None) now Repository
     [ex_link] = [] \<and>
   parseSkillsFromReadme parseMarkdown overrides (\<lambda>url. Response False None) now Repository
     [ex_link] \<noteq> [createSkillStub now ex_link Repository]"
  by (simp add: fetchSkillFromGitHub_def possibleFiles_def)

section \<open>A sync that finds nothing new\<close>

lemma sync_cloned:
  "cloned w \<Longrightarrow>
   sync env w =
     (case git_fetch env w of
        Inl err \<Rightarrow>
          (\<lparr>success = False, updated = False,
            message = ''Sync failed: '' @ err, skillsChanged = None\<rparr>, w)
      | Inr w1 \<Rightarrow>
          (case git_revparse_both env w1 of
             Inl err \<Rightarrow>
               (\<lparr>success = False, updated = False,
                 message = ''Sync failed: '' @ err, skillsChanged = None\<rparr>, w1)
           | Inr (currentRev, remoteRev, w2) \<Rightarrow>
               (if currentRev = remoteRev then
                  (\<lparr>success = True, updated = False,
                    message = ''Repository is up to date'', skillsChanged = Some False\<rparr>, w2)
                else
                  (case git_reset_hard env w2 of
                     Inl err \<Rightarrow>
                       (\<lparr>success = False, updated = False,
                         message = ''Sync failed: '' @ err, skillsChanged = None\<rparr>, w2)
                   | Inr w3 \<Rightarrow>
                       (\<lparr>success = True, updated = True,
                         message = ''Repository updated successfully'',
                         skillsChanged = Some True\<rparr>, w3)))))"
  by (simp add: sync_def)

text \<open>
  With the local head at the remote head, a sync that gets through its fetch and its
  two rev-parses is the no-op; one that does not reports a failure. Neither resets.
\<close>

lemma sync_up_to_date:
  assumes "cloned w" and "local_head w = upstream w"
  shows "sync env w =
           (if fetch_fails_now env then
              (\<lparr>success = False, updated = False,
                message = ''Sync failed: '' @ error_message env, skillsChanged = None\<rparr>, w)
            else if revparse_fails env then
              (\<lparr>success = False, updated = False,
                message = ''Sync failed: '' @ error_message env, skillsChanged = None\<rparr>,
               w\<lparr>tracking_head := upstream w, ops := ops w @ [Fetch]\<rparr>)
            else
              (\<lparr>success = True, updated = False,
                message = ''Repository is up to date'', skillsChanged = Some False\<rparr>,
               w\<lparr>tracking_head := upstream w, ops := ops w @ [Fetch, RevParse, RevParse]\<rparr>))"
  using assms by (simp add: sync_cloned git_fetch_def git_revparse_both_def)

lemma sync_up_to_date_frame:
  assumes "cloned w" and "local_head w = upstream w"
  shows "cloned (snd (sync env w)) \<and>
         local_head (snd (sync env w)) = local_head w \<and>
         upstream (snd (sync env w)) = upstream w \<and>
         local_changes (snd (sync env w)) = local_changes w \<and>
         ResetHard \<notin> set (drop (length (ops w)) (ops (snd (sync env w)))) \<and>
         length (ops w) \<le> length (ops (snd (sync env w))) \<and>
         take (length (ops w)) (ops (snd (sync env w))) = ops w"
  using assms by (simp add: sync_up_to_date)

text \<open>No sync or clone touches an untracked file.\<close>

lemma sync_keeps_untracked: "untracked_files (snd (sync env w)) = untracked_files w"
  by (auto simp: sync_def git_fetch_def git_revparse_both_def git_clone_def git_reset_hard_def
      split: if_splits sum.splits prod.splits)

text \<open>After any successful sync or clone the local head is the remote head.\<close>

lemma sync_success_at_upstream:
  assumes "sync env w = (r, w')" and "success r"
  shows "cloned w' \<and> local_head w' = upstream w' \<and> upstream w' = upstream w"
  using assms
  by (auto simp: sync_def git_fetch_def git_revparse_both_def git_clone_def git_reset_hard_def
      split: if_splits sum.splits prod.splits)

text \<open>
  Claim C8. Whenever the local head revision equals the remote head revision, \<open>sync\<close>
  returns \<open>updated = false\<close> and never \<open>skillsChanged = true\<close>; when its fetch and its
  rev-parses go through (so that it sees the two revisions are equal) it returns
  \<open>success = true\<close>, \<open>updated = false\<close> and \<open>skillsChanged = false\<close>. It runs no hard
  reset, and it leaves the local head and the local modifications of the working copy
  as they were. A second \<open>sync\<close> right after it, with no upstream change, again returns
  \<open>updated = false\<close> and again runs no hard reset.
\<close>

theorem sync_no_op:
  assumes "cloned w" and "local_head w = upstream w"
  shows "updated (fst (sync env w)) = False \<and>
         skillsChanged (fst (sync env w)) \<noteq> Some True \<and>
         (\<not> fetch_fails_now env \<and> \<not> revparse_fails env \<longrightarrow>
            success (fst (sync env w)) \<and> skillsChanged (fst (sync env w)) = Some False) \<and>
         local_head (snd (sync env w)) = local_head w \<and>
         local_changes (snd (sync env w)) = local_changes w \<and>
         ResetHard \<notin> set (drop (length (ops w)) (ops (snd (sync env w)))) \<and>
         updated (fst (sync env2 (snd (sync env w)))) = False \<and>
         skillsChanged (fst (sync env2 (snd (sync env w)))) \<noteq> Some True \<and>
         (\<not> fetch_fails_now env2 \<and> \<not> revparse_fails env2 \<longrightarrow>
            skillsChanged (fst (sync env2 (snd (sync env w)))) = Some False) \<and>
         local_changes (snd (sync env2 (snd (sync env w)))) = local_changes w \<and>
         ResetHard \<notin> set (drop (length (ops w)) (ops (snd (sync env2 (snd (sync env w))))))"
proof -
  let ?w1 = "snd (sync env w)"
  let ?w2 = "snd (sync env2 ?w1)"
  have f1: "cloned ?w1" "local_head ?w1 = upstream ?w1" "local_changes ?w1 = local_changes w"
    "ResetHard \<notin> set (drop (length (ops w)) (ops ?w1))"
    "length (ops w) \<le> length (ops ?w1)" "local_head ?w1 = local_head w"
    using sync_up_to_date_frame[OF assms, of env] assms(2) by simp_all
  have f2: "local_changes ?w2 = local_changes ?w1"
    "ResetHard \<notin> set (drop (length (ops ?w1)) (ops ?w2))"
    "take (length (ops ?w1)) (ops ?w2) = ops ?w1"
    using sync_up_to_date_frame[OF f1(1,2), of env2] by simp_all
  have "ops ?w2 = take (length (ops ?w1)) (ops ?w2) @ drop (length (ops ?w1)) (ops ?w2)"
    by simp
  then have "ops ?w2 = ops ?w1 @ drop (length (ops ?w1)) (ops ?w2)"
    by (simp only: f2(3))
  then have "drop (length (ops w)) (ops ?w2)
               = drop (length (ops w)) (ops ?w1) @ drop (length (ops ?w1)) (ops ?w2)"
    using f1(5) by (metis drop_append diff_is_0_eq drop0)
  then have r2: "ResetHard \<notin> set (drop (length (ops w)) (ops ?w2))"
    using f1(4) f2(2) by simp
  have a: "updated (fst (sync env w)) = False" "skillsChanged (fst (sync env w)) \<noteq> Some True"
    "\<not> fetch_fails_now env \<and> \<not> revparse_fails env \<longrightarrow>
       success (fst (sync env w)) \<and> skillsChanged (fst (sync env w)) = Some False"
    by (simp_all add: sync_up_to_date[OF assms])
  have b: "updated (fst (sync env2 ?w1)) = False"
    "skillsChanged (fst (sync env2 ?w1)) \<noteq> Some True"
    "\<not> fetch_fails_now env2 \<and> \<not> revparse_fails env2 \<longrightarrow>
       skillsChanged (fst (sync env2 ?w1)) = Some False"
    by (simp_all add: sync_up_to_date[OF f1(1,2)])
  show ?thesis
    using a b f1(3,4,6) f2(1) r2 by simp
qed

theorem sync_no_op_witness:
  "cloned ex_copy \<and> local_head ex_copy = upstream ex_copy \<and>
   fst (sync ex_env ex_copy) =
     \<lparr>success = True, updated = False, message = ''Repository is up to date'',
      skillsChanged = Some False\<rparr> \<and>
   local_changes (snd (sync ex_env ex_copy)) = [''README.md''] \<and>
   ops (snd (sync ex_env ex_copy)) = [Fetch, RevParse, RevParse] \<and>
   updated (fst (sync ex_env (snd (sync ex_env ex_copy)))) = False"
proof -
  have c: "cloned ex_copy" and h: "local_head ex_copy = upstream ex_copy"
    by (simp_all add: ex_copy_def)
  have v: "sync ex_env ex_copy =
      (\<lparr>success = True, updated = False, message = ''Repository is up to date'',
        skillsChanged = Some False\<rparr>,
       ex_copy\<lparr>tracking_head := upstream ex_copy, ops := ops ex_copy @ [Fetch, RevParse, RevParse]\<rparr>)"
    by (simp add: sync_up_to_date[OF c h] ex_env_def)
  have "updated (fst (sync ex_env (snd (sync ex_env ex_copy)))) = False"
    using sync_no_op[OF c h, of ex_env ex_env] by blast
  then show ?thesis
    using c h by (simp add: v) (simp add: ex_copy_def)
qed

section \<open>Properties of parameter validation\<close>

lemma validateParameters_not_found:
  "getSkill r skillId = None \<Longrightarrow>
   validateParameters r skillId params =
     \<lparr>valid = False, errors = Some [''Skill not found: '' @ skillId]\<rparr>"
  by (simp add: validateParameters_def)

lemma foldl_check_parameter:
  "foldl (check_parameter params) errs ps =
     errs @ concat (map (check_parameter params []) ps)"
proof (induction ps arbitrary: errs)
  case Nil
  then show ?case by simp
next
  case (Cons p ps)
  have "check_parameter params errs p = errs @ check_parameter params [] p"
    by (simp add: check_parameter_def split: option.splits)
  then show ?case
    by (simp add: Cons.IH)
qed

lemma foldl_check_key:
  "foldl (check_key known) errs ks =
     errs @ map (\<lambda>k. ''Unknown parameter: '' @ k) (filter (\<lambda>k. k \<notin> set known) ks)"
  by (induction ks arbitrary: errs) (simp_all add: check_key_def)

text \<open>
  For a declared parameter whose name is not the name of a property of
  \<^verbatim>\<open>Object.prototype\<close>, the first loop reports exactly the violation there is.
\<close>

lemma check_parameter_own:
  assumes "map_of object_prototype (p_name p) = None"
  shows "check_parameter params [] p =
           (if missing_required params p then [''Missing required parameter: '' @ p_name p]
            else if present_invalid params p then
              [''Invalid parameter '' @ [quote] @ p_name p @ [quote] @ '': ''
                 @ the (validateParameterValue p (the (map_of params (p_name p))))]
            else [])"
  using assms
  by (auto simp: check_parameter_def missing_required_def present_invalid_def js_in_def
      js_get_def split: option.splits)

lemma validateParameters_collects_all:
  assumes "getSkill r skillId = Some skill"
    and "s_parameters skill = Some ps"
    and "list_all (\<lambda>p. map_of object_prototype (p_name p) = None) ps"
  shows "(case errors (validateParameters r skillId params) of None \<Rightarrow> 0 | Some es \<Rightarrow> length es)
           = length (filter (missing_required params) ps)
             + length (filter (present_invalid params) ps)
             + length (filter (unknown_key ps) (object_keys params))"
    and "valid (validateParameters r skillId params) =
           (filter (missing_required params) ps = [] \<and>
            filter (present_invalid params) ps = [] \<and>
            filter (unknown_key ps) (object_keys params) = [])"
proof -
  have one: "list_all (\<lambda>p. map_of object_prototype (p_name p) = None) qs \<Longrightarrow>
        length (concat (map (check_parameter params []) qs))
          = length (filter (missing_required params) qs)
            + length (filter (present_invalid params) qs)" for qs
  proof (induction qs)
    case Nil
    then show ?case by simp
  next
    case (Cons q qs)
    have "\<not> (missing_required params q \<and> present_invalid params q)"
      by (auto simp: missing_required_def present_invalid_def)
    then show ?case
      using Cons by (auto simp: check_parameter_own)
  qed
  let ?es = "foldl (check_key (map p_name ps)) (foldl (check_parameter params) [] ps)
               (object_keys params)"
  have len: "length ?es = length (filter (missing_required params) ps)
             + length (filter (present_invalid params) ps)
             + length (filter (unknown_key ps) (object_keys params))"
    using one[OF assms(3)]
    by (simp add: foldl_check_key foldl_check_parameter unknown_key_def[abs_def])
  have v: "validateParameters r skillId params =
             \<lparr>valid = (length ?es = 0), errors = (if length ?es > 0 then Some ?es else None)\<rparr>"
    using assms(1,2) by (simp add: validateParameters_def Let_def)
  show "(case errors (validateParameters r skillId params) of None \<Rightarrow> 0 | Some es \<Rightarrow> length es)
           = length (filter (missing_required params) ps)
             + length (filter (present_invalid params) ps)
             + length (filter (unknown_key ps) (object_keys params))"
    using len by (simp add: v del: length_0_conv length_greater_0_conv)
  show "valid (validateParameters r skillId params) =
           (filter (missing_required params) ps = [] \<and>
            filter (present_invalid params) ps = [] \<and>
            filter (unknown_key ps) (object_keys params) = [])"
    using len by (simp add: v del: length_0_conv filter_empty_conv) (simp only: length_0_conv[symmetric])
qed

text \<open>
  The example of claim C4: a skill with the required parameters \<open>a\<close> and \<open>b\<close>, called
  with \<open>{z: 1}\<close>, gets three violations.
\<close>

lemma validateParameters_three_violations:
  "validateParameters
     (registerSkill (new_registry ''/tmp/cache'')
        (ex_skill_with ''s'' ''c'' [ex_param ''a'' TString True, ex_param ''b'' TString True]))
     ''s'' [(''z'', JNumber ''1'')]
   = \<lparr>valid = False,
      errors = Some [''Missing required parameter: a'', ''Missing required parameter: b'',
                     ''Unknown parameter: z'']\<rparr>"
  by code_simp

text \<open>
  Claim C4 on the code. The skill \<open>merge\<close> declares one required parameter, of type
  \<^verbatim>\<open>object\<close>, named \<^verbatim>\<open>__proto__\<close>; the caller passes the empty map \<^verbatim>\<open>{}\<close>. The parameter
  is required and absent from the map, but \<^verbatim>\<open>'__proto__' in params\<close> is true and
  \<^verbatim>\<open>params['__proto__']\<close> is \<^verbatim>\<open>Object.prototype\<close>, an object: no violation is
  reported and the call is valid.
\<close>

theorem validateParameters_inherited_name:
  "missing_required [] (ex_param ''__proto__'' TObject True) \<and>
   validateParameters
     (registerSkill (new_registry ''/tmp/cache'')
        (ex_skill_with ''merge'' ''c'' [ex_param ''__proto__'' TObject True]))
     ''merge'' []
   = \<lparr>valid = True, errors = None\<rparr>"
  by code_simp

text \<open>
  With an optional parameter named \<^verbatim>\<open>constructor\<close>, the empty map is rejected: the
  inherited function is validated as if the caller had passed it.
\<close>

lemma validateParameters_inherited_function:
  "validateParameters
     (registerSkill (new_registry ''/tmp/cache'')
        (ex_skill_with ''s'' ''c'' [ex_param ''constructor'' TString False]))
     ''s'' []
   = \<lparr>valid = False,
      errors = Some [''Invalid parameter '' @ [quote] @ ''constructor'' @ [quote]
                       @ '': Expected string, received function'']\<rparr>"
  by code_simp

section \<open>Properties of template substitution\<close>

lemma strip_prefix_Cons_Some:
  "strip_prefix (p # ps) s = Some rest \<Longrightarrow> s \<noteq> [] \<and> hd s = p"
  by (cases s) (auto split: if_splits)

text \<open>A placeholder starts with an opening brace, or with a dollar sign and one.\<close>

lemma match_placeholder_needs_brace:
  assumes "match_placeholder form key s = Some len"
  shows "CHR ''{'' \<in> set s"
proof (cases form)
  case DoubleBrace
  then obtain rest where "strip_prefix ''{{'' s = Some rest"
    using assms by (auto simp: match_placeholder_def split: option.splits)
  then have "s \<noteq> [] \<and> hd s = CHR ''{''"
    by (rule strip_prefix_Cons_Some)
  then show ?thesis
    by (cases s) auto
next
  case DollarBrace
  then obtain rest where "strip_prefix ''${'' s = Some rest"
    using assms by (auto simp: match_placeholder_def split: option.splits)
  then show ?thesis
    by (cases s; cases "tl s") (auto split: if_splits)
qed

lemma replace_scan_no_brace:
  "CHR ''{'' \<notin> set s \<Longrightarrow> replace_scan form key replacement scanned 0 s = s"
proof (induction s arbitrary: scanned)
  case Nil
  then show ?case by simp
next
  case (Cons c cs)
  have "match_placeholder form key (c # cs) = None"
    using Cons.prems match_placeholder_needs_brace[of form key "c # cs"]
    by (cases "match_placeholder form key (c # cs)") auto
  then show ?case
    using Cons by simp
qed

text \<open>A template without an opening brace has no placeholder and is rendered as it is.\<close>

lemma substituteParameters_no_placeholder:
  "CHR ''{'' \<notin> set content \<Longrightarrow> list_all (\<lambda>(k, v). literal_key k) params \<Longrightarrow>
   substituteParameters content params = Some content"
  by (induction params arbitrary: content)
     (auto simp: replace_placeholders_def replace_scan_no_brace)

text \<open>A replacement string without a dollar sign is inserted as it is.\<close>

lemma get_substitution_plain:
  "CHR ''$'' \<notin> set replacement \<Longrightarrow>
   get_substitution matched preceding following replacement = replacement"
  by (induction matched preceding following replacement rule: get_substitution.induct) auto

lemma strip_prefix_append: "strip_prefix p (p @ s) = Some s"
  by (induction p) auto

lemma word_not_space: "is_word_char c \<Longrightarrow> \<not> is_space c"
  by (auto simp: is_word_char_def is_space_def)

lemma brace_not_space: "\<not> is_space CHR ''}''"
  by (simp add: is_space_def code_def)

lemma dropWhile_spaces:
  "list_all is_space ws \<Longrightarrow> s = [] \<or> \<not> is_space (hd s) \<Longrightarrow> dropWhile is_space (ws @ s) = s"
proof (induction ws)
  case Nil
  then show ?case by (cases s) auto
next
  case (Cons a ws)
  then show ?case by simp
qed

lemma closer_hd: "closer form @ rest \<noteq> [] \<and> hd (closer form @ rest) = CHR ''}''"
  by (cases form) auto

lemma match_hole:
  assumes "literal_key key" "key \<noteq> []" "list_all is_space ws1" "list_all is_space ws2"
  shows "match_placeholder form key (render_hole form key ws1 ws2 @ rest)
           = Some (length (render_hole form key ws1 ws2))"
proof -
  have k: "\<not> is_space (hd (key @ ws2 @ closer form @ rest))"
    using assms(1,2) by (cases key) (auto simp: literal_key_def word_not_space)
  have 1: "dropWhile is_space (ws1 @ key @ ws2 @ closer form @ rest) = key @ ws2 @ closer form @ rest"
    using assms(3) k by (intro dropWhile_spaces) auto
  have 2: "dropWhile is_space (ws2 @ closer form @ rest) = closer form @ rest"
    using assms(4) closer_hd[of form rest] by (intro dropWhile_spaces) (auto simp: brace_not_space)
  show ?thesis
    by (simp add: match_placeholder_def render_hole_def strip_prefix_append 1 2)
qed

lemma no_match_text:
  assumes "c \<noteq> CHR ''{''" and "form = DollarBrace \<longrightarrow> rest = [] \<or> hd rest \<noteq> CHR ''{''"
  shows "match_placeholder form key (c # rest) = None"
  using assms by (cases form; cases rest) (auto simp: match_placeholder_def)

lemma replace_scan_skip:
  "replace_scan form key v scanned (length xs) (xs @ ys)
     = replace_scan form key v (scanned @ xs) 0 ys"
  by (induction xs arbitrary: scanned) auto

lemma template_start:
  "list_all wf_segment segs \<Longrightarrow>
   template_of DollarBrace key segs = [] \<or> hd (template_of DollarBrace key segs) \<noteq> CHR ''{''"
proof (induction segs)
  case Nil
  then show ?case by simp
next
  case (Cons seg segs)
  show ?case
  proof (cases seg)
    case (Text t)
    have "t \<noteq> [] \<Longrightarrow> hd t \<noteq> CHR ''{''"
      using Cons.prems Text by (cases t) auto
    then show ?thesis
      using Cons Text by (auto simp: hd_append)
  next
    case (Hole ws1 ws2)
    then show ?thesis
      by (simp add: render_hole_def)
  qed
qed

lemma replace_scan_text:
  assumes "CHR ''{'' \<notin> set t" and "form = DollarBrace \<longrightarrow> rest = [] \<or> hd rest \<noteq> CHR ''{''"
  shows "replace_scan form key v scanned 0 (t @ rest)
           = t @ replace_scan form key v (scanned @ t) 0 rest"
  using assms
proof (induction t arbitrary: scanned)
  case Nil
  then show ?case by simp
next
  case (Cons c t)
  have "form = DollarBrace \<longrightarrow> t @ rest = [] \<or> hd (t @ rest) \<noteq> CHR ''{''"
    using Cons.prems by (cases t) auto
  then have "match_placeholder form key (c # t @ rest) = None"
    using Cons.prems by (intro no_match_text) auto
  then show ?case
    using Cons by simp
qed

lemma replace_scan_hole:
  assumes "literal_key key" "key \<noteq> []" "list_all is_space ws1" "list_all is_space ws2"
    and "CHR ''$'' \<notin> set v"
  shows "replace_scan form key v scanned 0 (render_hole form key ws1 ws2 @ rest)
           = v @ replace_scan form key v (scanned @ render_hole form key ws1 ws2) 0 rest"
proof -
  let ?h = "render_hole form key ws1 ws2"
  obtain c cs where h: "?h = c # cs"
    by (cases form) (auto simp: render_hole_def)
  have m: "match_placeholder form key (c # cs @ rest) = Some (Suc (length cs))"
    using match_hole[OF assms(1-4), of form rest] h by simp
  have "replace_scan form key v scanned 0 (?h @ rest)
          = get_substitution (take (Suc (length cs)) (c # cs @ rest)) scanned
              (drop (Suc (length cs)) (c # cs @ rest)) v
            @ replace_scan form key v (scanned @ [c]) (length cs) (cs @ rest)"
    by (simp add: h m)
  also have "\<dots> = v @ replace_scan form key v ((scanned @ [c]) @ cs) 0 rest"
    by (simp only: get_substitution_plain[OF assms(5)] replace_scan_skip)
  finally show ?thesis
    by (simp add: h)
qed

lemma replace_scan_segments:
  assumes "literal_key key" "key \<noteq> []" "CHR ''$'' \<notin> set v"
  shows "list_all wf_segment segs \<Longrightarrow>
         replace_scan form key v scanned 0 (template_of form key segs) = rendered v segs"
proof (induction segs arbitrary: scanned)
  case Nil
  then show ?case by simp
next
  case (Cons seg segs)
  have st: "form = DollarBrace \<longrightarrow>
              template_of form key segs = [] \<or> hd (template_of form key segs) \<noteq> CHR ''{''"
    using Cons.prems template_start[of segs key] by auto
  show ?case
  proof (cases seg)
    case (Text t)
    then show ?thesis
      using Cons st by (simp add: replace_scan_text)
  next
    case (Hole ws1 ws2)
    then show ?thesis
      using Cons assms by (simp add: replace_scan_hole)
  qed
qed

text \<open>
  One pass of \<^verbatim>\<open>replace\<close> over a template that is made of brace-free text and of
  placeholders of the key, with a value that has no dollar sign: every placeholder
  gives way to the value and the text stays.
\<close>

lemma replace_placeholders_segments:
  assumes "literal_key key" "key \<noteq> []" "CHR ''$'' \<notin> set v" "list_all wf_segment segs"
  shows "replace_placeholders form key v (template_of form key segs) = rendered v segs"
  unfolding replace_placeholders_def using assms by (rule replace_scan_segments)

text \<open>The examples of claim C5 are rendered as the claim says.\<close>

lemma substituteParameters_examples:
  "substituteParameters ''Hello, {{name}}!'' [(''name'', JString ''World'')] = Some ''Hello, World!''"
  "substituteParameters ''${x}-${x}'' [(''x'', JString ''1'')] = Some ''1-1''"
  "substituteParameters ''{{ x }}-${ x }-{{y}}-${z}'' [(''x'', JString ''1'')] = Some ''1-1-{{y}}-${z}''"
  by code_simp+

text \<open>
  Claim C5 on the code. The skill \<open>run\<close> has the template \<^verbatim>\<open>Run: {{cmd}}\<close> and the
  required string parameter \<open>cmd\<close>; it is invoked with \<^verbatim>\<open>{cmd: "echo $$"}\<close>. The value
  is handed to \<^verbatim>\<open>String.prototype.replace\<close> as the replacement string, in which \<^verbatim>\<open>$$\<close>
  stands for one dollar sign: the placeholder is not replaced with the value of the
  key.
\<close>

theorem substituteParameters_dollar_pattern:
  "substituteParameters ''Run: {{cmd}}'' [(''cmd'', JString ''echo $$'')] = Some ''Run: echo $'' \<and>
   substituteParameters ''Run: {{cmd}}'' [(''cmd'', JString ''echo $$'')]
     \<noteq> Some (''Run: '' @ js_String (JString ''echo $$'')) \<and>
   invokeSkill
     (registerSkill (new_registry ''/tmp/cache'')
        (ex_skill_with ''run'' ''Run: {{cmd}}'' [ex_param ''cmd'' TString True]))
     0 ''run'' [(''cmd'', JString ''echo $$'')]
   = Some \<lparr>inv_success = True, inv_content = Some ''Run: echo $'', inv_error = None,
            executionTime = 0\<rparr>"
  by code_simp

text \<open>
  The entries are substituted one after the other, each into the result of the one
  before: a value that contains a placeholder of a later key is substituted again.
\<close>

lemma substituteParameters_sequential:
  "substituteParameters ''{{a}}'' [(''a'', JString ''{{b}}''), (''b'', JString ''X'')] = Some ''X''"
  by code_simp

section \<open>Overlapping sync cycles\<close>

lemma filter_update_len:
  assumes "i < length xs"
  shows "length (filter P (xs[i := y])) + (if P (xs ! i) then 1 else 0)
         = length (filter P xs) + (if P y then 1 else 0)"
proof -
  have a: "xs[i := y] = take i xs @ y # drop (Suc i) xs"
    using assms by (rule upd_conv_take_nth_drop)
  have b: "xs = take i xs @ xs ! i # drop (Suc i) xs"
    using assms by (rule id_take_nth_drop)
  have "length (filter P xs) = length (filter P (take i xs @ xs ! i # drop (Suc i) xs))"
    using b by simp
  then show ?thesis by (simp add: a)
qed

lemma filter_remove_len:
  assumes "i < length xs"
  shows "length (filter P (remove_nth i xs)) + (if P (xs ! i) then 1 else 0)
         = length (filter P xs)"
proof -
  have b: "xs = take i xs @ xs ! i # drop (Suc i) xs"
    using assms by (rule id_take_nth_drop)
  have "length (filter P xs) = length (filter P (take i xs @ xs ! i # drop (Suc i) xs))"
    using b by simp
  then show ?thesis by (simp add: remove_nth_def)
qed

lemma step_guard_inv:
  assumes "guard_inv s" "step s e = Some s'"
  shows "guard_inv s'"
proof (cases e)
  case Tick
  then show ?thesis using assms by (auto simp: step_def guard_inv_def callbacks_active_def)
next
  case (SyncDone i r)
  then have i: "i < length (running s)" using assms(2) by (auto simp: step_def split: if_splits)
  let ?P = "\<lambda>p. p = InnerSync \<or> p = Refreshing"
  note u = filter_update_len[OF i, of ?P] 
  note d = filter_remove_len[OF i, of ?P]
  show ?thesis
    using assms SyncDone i u[of InnerSync] u[of Refreshing] d
    by (cases "running s ! i") (auto simp: step_def guard_inv_def callbacks_active_def split: if_splits)
next
  case (RefreshDone i)
  then have i: "i < length (running s)" using assms(2) by (auto simp: step_def split: if_splits)
  let ?P = "\<lambda>p. p = InnerSync \<or> p = Refreshing"
  note d = filter_remove_len[OF i, of ?P]
  show ?thesis
    using assms RefreshDone i d
    by (cases "running s ! i") (auto simp: step_def guard_inv_def callbacks_active_def split: if_splits)
qed

lemma run_guard_inv: "guard_inv s \<Longrightarrow> run s es = Some s' \<Longrightarrow> guard_inv s'"
  by (induction es arbitrary: s) (auto split: option.splits dest: step_guard_inv)

text \<open>Every tick starts a sync: after \<open>n\<close> ticks with no completion, \<open>n\<close> syncs are running.\<close>

lemma run_ticks: "run s (replicate n Tick) = Some (s\<lparr>running := running s @ replicate n OuterSync\<rparr>)"
  by (induction n arbitrary: s) (simp_all add: step_def replicate_app_Cons_same)

lemma syncs_in_flight_ticks:
  "map_option syncs_in_flight (run start_state (replicate n Tick)) = Some n"
  by (simp add: run_ticks syncs_in_flight_def start_state_def)

text \<open>
  The flag keeps the callback of \<^verbatim>\<open>main\<close> from running twice at a time, in every
  execution of the loop.
\<close>

lemma autosync_one_callback:
  "run start_state es = Some s \<Longrightarrow> callbacks_active s \<le> 1"
proof -
  assume "run start_state es = Some s"
  moreover have "guard_inv start_state"
    by (simp add: guard_inv_def callbacks_active_def start_state_def)
  ultimately have "guard_inv s"
    using run_guard_inv by blast
  then show ?thesis
    by (simp add: guard_inv_def)
qed

text \<open>
  Claim C3 on the code. The timer fires twice before the first sync has completed:
  the second tick starts a sync of its own, and two syncs run against the working
  copy. The same when the second tick arrives while the callback of the first cycle
  is waiting for its sync: the flag \<^verbatim>\<open>isSyncing\<close> is set, and the tick still starts a
  sync.
\<close>

theorem autosync_overlapping_syncs:
  "run start_state [Tick, Tick] = Some \<lparr>running = [OuterSync, OuterSync], isSyncing = False\<rparr> \<and>
   map_option syncs_in_flight (run start_state [Tick, Tick]) = Some 2 \<and>
   run start_state [Tick, SyncDone 0 ex_updated, Tick]
     = Some \<lparr>running = [InnerSync, OuterSync], isSyncing = True\<rparr> \<and>
   map_option syncs_in_flight (run start_state [Tick, SyncDone 0 ex_updated, Tick]) = Some 2"
  by (simp add: step_def start_state_def syncs_in_flight_def ex_updated_def)

end
